theory Spec2Isabelle
  imports Main
begin

section \<open>Data model of control/DomainBlock.js\<close>

text \<open>
  The \<open>options\<close> argument is a loosely typed JavaScript object. Two of its fields matter:
  \<open>exactMatch\<close>, which the code reads, and \<open>externalMapping\<close>, which callers may put
  there. A field that is absent is \<open>None\<close> (JavaScript \<open>undefined\<close>).
\<close>

record options =
  exactMatch :: "bool option"
  externalMapping :: "string option"

text \<open>The empty object literal \<open>{}\<close>.\<close>

definition empty_options :: options where
  "empty_options = \<lparr>exactMatch = None, externalMapping = None\<rparr>"

text \<open>\<open>options = options || {}\<close>: an absent argument becomes the empty object.\<close>

definition or_empty :: "options option \<Rightarrow> options" where
  "or_empty options = (case options of None \<Rightarrow> empty_options | Some opts \<Rightarrow> opts)"

text \<open>
  The \<open>DomainBlock\<close> instance. Its constructor is empty, so the only property the methods
  ever read from \<open>this\<close> is \<open>this.externalMapping\<close>, which is \<open>undefined\<close> unless the
  holder of the instance assigned it.
\<close>

record domainBlock =
  this_externalMapping :: "string option"

text \<open>
  JavaScript truthiness of the two kinds of value that are tested: a flag is truthy only
  when it is \<open>true\<close>; a string is truthy when it is present and not empty.
\<close>

definition truthy_flag :: "bool option \<Rightarrow> bool" where
  "truthy_flag v = (case v of None \<Rightarrow> False | Some b \<Rightarrow> b)"

definition truthy_string :: "string option \<Rightarrow> bool" where
  "truthy_string v = (case v of None \<Rightarrow> False | Some s \<Rightarrow> s \<noteq> [])"

section \<open>Mapping key\<close>

text \<open>The string held by a property that has been tested truthy.\<close>

definition string_value :: "string option \<Rightarrow> string" where
  "string_value v = (case v of None \<Rightarrow> [] | Some s \<Rightarrow> s)"

definition getDomainIPMappingKey :: "domainBlock \<Rightarrow> string \<Rightarrow> options option \<Rightarrow> string" where
  "getDomainIPMappingKey this domain options =
     (let options = or_empty options in
      if truthy_string (this_externalMapping this) then string_value (this_externalMapping this)
      else if truthy_flag (exactMatch options) then ''ipmapping:exactdomain:'' @ domain
      else ''ipmapping:domain:'' @ domain)"

section \<open>The world outside the class\<close>

text \<open>
  Every call that leaves the class is recorded, in the order it is issued. The position of
  a call in this record is its index.
\<close>

datatype event =
    AddPolicyFilterEntry string
  | RemovePolicyFilterEntry string
  | EmitReloadDNSRule
  | SetTimeoutIncrementalUpdate string options nat
  | Delay nat
  | Resolve4 string
  | Resolve6 string
  | AddReverseDns string "string list"
  | GetAddressesByDNS string
  | GetAddressesByDNSPattern string
  | SAdd string "string list"
  | SMembers string
  | Exists string
  | Del string
  | Block string string
  | Unblock string string

text \<open>
  The mutable state: the module-level \<open>globalLock\<close>, the Redis keys that hold sets (a key
  with no member does not exist), and the record of calls.
\<close>

record world =
  globalLock :: bool
  store :: "string \<Rightarrow> string list"
  trace :: "event list"

datatype error = DnsError | RdnsError | StoreError | BlockError | FilterError

text \<open>
  The behaviour of the collaborators, none of which is part of the class: for each family,
  whether the call issued at index \<open>n\<close> rejects, and what the lookups answer when they do
  not. \<open>during_delay\<close> is what the other tasks of the process do to the lock and the store
  while this one sleeps in \<open>delay\<close>; \<open>during_adoption\<close> is what they do between the
  settling of a promise that an \<open>async\<close> body has returned and the settling of the
  promise of that body, which adopts it.
\<close>

record env =
  dns_fails :: "nat \<Rightarrow> bool"
  rdns_fails :: "nat \<Rightarrow> bool"
  store_fails :: "nat \<Rightarrow> bool"
  block_fails :: "nat \<Rightarrow> bool"
  filter_fails :: "nat \<Rightarrow> bool"
  dns4 :: "nat \<Rightarrow> string \<Rightarrow> string list"
  dns6 :: "nat \<Rightarrow> string \<Rightarrow> string list"
  rdns_exact :: "nat \<Rightarrow> string \<Rightarrow> string list"
  rdns_pattern :: "nat \<Rightarrow> string \<Rightarrow> string list"
  during_delay :: "nat \<Rightarrow> bool \<times> (string \<Rightarrow> string list) \<Rightarrow> bool \<times> (string \<Rightarrow> string list)"
  during_adoption :: "nat \<Rightarrow> bool \<times> (string \<Rightarrow> string list) \<Rightarrow> bool \<times> (string \<Rightarrow> string list)"

text \<open>A promise-returning computation: it ends resolved (\<open>Inr\<close>) or rejected (\<open>Inl\<close>).\<close>

type_synonym 'a task = "world \<Rightarrow> (error + 'a) \<times> world"

definition now :: "world \<Rightarrow> nat" where
  "now w = length (trace w)"

definition emit :: "event \<Rightarrow> world \<Rightarrow> world" where
  "emit ev w = w\<lparr>trace := trace w @ [ev]\<rparr>"

definition resolved :: "'a \<Rightarrow> 'a task" where
  "resolved x w = (Inr x, w)"

text \<open>\<open>await (m)\<close> followed by the rest of the body: a rejection is thrown and ends the body.\<close>

definition andThen :: "'a task \<Rightarrow> ('a \<Rightarrow> 'b task) \<Rightarrow> 'b task" where
  "andThen m f w = (case m w of (Inl err, w') \<Rightarrow> (Inl err, w') | (Inr x, w') \<Rightarrow> f x w')"

text \<open>\<open>m.catch((err) => v)\<close>.\<close>

definition catch_with :: "'a task \<Rightarrow> (error \<Rightarrow> 'a) \<Rightarrow> 'a task" where
  "catch_with m h w = (case m w of (Inl err, w') \<Rightarrow> (Inr (h err), w') | (Inr x, w') \<Rightarrow> (Inr x, w'))"

text \<open>A call that only resolves or rejects.\<close>

definition external :: "event \<Rightarrow> bool \<Rightarrow> error \<Rightarrow> 'a \<Rightarrow> 'a task" where
  "external ev failed err x w = (if failed then Inl err else Inr x, emit ev w)"

subsection \<open>DNS filter, event bus, resolver, block primitive\<close>

definition addPolicyFilterEntry :: "env \<Rightarrow> string \<Rightarrow> unit task" where
  "addPolicyFilterEntry e domain w =
     external (AddPolicyFilterEntry domain) (filter_fails e (now w)) FilterError () w"

definition removePolicyFilterEntry :: "env \<Rightarrow> string \<Rightarrow> unit task" where
  "removePolicyFilterEntry e domain w =
     external (RemovePolicyFilterEntry domain) (filter_fails e (now w)) FilterError () w"

text \<open>\<open>sem.emitEvent\<close> and \<open>setTimeout\<close> are synchronous and return nothing of use.\<close>

definition emitEvent :: "unit task" where
  "emitEvent w = (Inr (), emit EmitReloadDNSRule w)"

definition setTimeout_incrementalUpdate :: "string \<Rightarrow> options \<Rightarrow> nat \<Rightarrow> unit task" where
  "setTimeout_incrementalUpdate domain options t w =
     (Inr (), emit (SetTimeoutIncrementalUpdate domain options t) w)"

definition resolve4Async :: "env \<Rightarrow> string \<Rightarrow> string list task" where
  "resolve4Async e domain w =
     external (Resolve4 domain) (dns_fails e (now w)) DnsError (dns4 e (now w) domain) w"

definition resolve6Async :: "env \<Rightarrow> string \<Rightarrow> string list task" where
  "resolve6Async e domain w =
     external (Resolve6 domain) (dns_fails e (now w)) DnsError (dns6 e (now w) domain) w"

definition Block_block :: "env \<Rightarrow> string \<Rightarrow> string \<Rightarrow> unit task" where
  "Block_block e addr setName w =
     external (Block addr setName) (block_fails e (now w)) BlockError () w"

definition Block_unblock :: "env \<Rightarrow> string \<Rightarrow> string \<Rightarrow> unit task" where
  "Block_unblock e addr setName w =
     external (Unblock addr setName) (block_fails e (now w)) BlockError () w"

subsection \<open>Reverse-DNS cache (net2/DNSTool.js)\<close>

text \<open>
  Modelled from the spec: \<open>DNSTool.addReverseDns\<close> is not among the sources. The spec's
  contract for the reverse-DNS cache says that recording an observation tolerates failure,
  so the call resolves; what it stores shows only in the answers of later lookups, which
  \<open>rdns_exact\<close> and \<open>rdns_pattern\<close> give per call.
\<close>

definition addReverseDns :: "string \<Rightarrow> string list \<Rightarrow> unit task" where
  "addReverseDns domain addresses w = (Inr (), emit (AddReverseDns domain addresses) w)"

definition getAddressesByDNS :: "env \<Rightarrow> string \<Rightarrow> string list task" where
  "getAddressesByDNS e domain w =
     external (GetAddressesByDNS domain) (rdns_fails e (now w)) RdnsError
       (rdns_exact e (now w) domain) w"

definition getAddressesByDNSPattern :: "env \<Rightarrow> string \<Rightarrow> string list task" where
  "getAddressesByDNSPattern e domain w =
     external (GetAddressesByDNSPattern domain) (rdns_fails e (now w)) RdnsError
       (rdns_pattern e (now w) domain) w"

subsection \<open>Mapping store (Redis sets)\<close>

text \<open>Adding a member to a collection without duplicates, keeping insertion order.\<close>

definition put :: "string list \<Rightarrow> string \<Rightarrow> string list" where
  "put acc a = (if a \<in> set acc then acc else acc @ [a])"

text \<open>
  Modelled from the spec: the mapping store is a Redis server reached through the
  promisified client \<open>rclient\<close>, which is not part of the sources. The spec describes it
  as string keys mapping to sets of address strings with set-add, members-read,
  key-exists and key-delete; adding has set-union semantics.
  A store call that rejects leaves the store as it was. \<open>SADD\<close> answers the number of
  members that were new, \<open>DEL\<close> the number of keys removed, \<open>EXISTS\<close> whether the key is
  there, \<open>SMEMBERS\<close> the members (none for a key that does not exist).
\<close>

definition saddAsync :: "env \<Rightarrow> string \<Rightarrow> string list \<Rightarrow> nat task" where
  "saddAsync e key members w =
     (if store_fails e (now w) then (Inl StoreError, emit (SAdd key members) w)
      else (Inr (length (foldl put (store w key) members) - length (store w key)),
            (emit (SAdd key members) w)\<lparr>store := (store w)(key := foldl put (store w key) members)\<rparr>))"

definition smembersAsync :: "env \<Rightarrow> string \<Rightarrow> string list task" where
  "smembersAsync e key w =
     external (SMembers key) (store_fails e (now w)) StoreError (store w key) w"

definition existsAsync :: "env \<Rightarrow> string \<Rightarrow> bool task" where
  "existsAsync e key w =
     external (Exists key) (store_fails e (now w)) StoreError (store w key \<noteq> []) w"

definition delAsync :: "env \<Rightarrow> string \<Rightarrow> nat task" where
  "delAsync e key w =
     (if store_fails e (now w) then (Inl StoreError, emit (Del key) w)
      else (Inr (if store w key \<noteq> [] then 1 else 0),
            (emit (Del key) w)\<lparr>store := (store w)(key := [])\<rparr>))"

section \<open>The methods of the class\<close>

text \<open>
  The methods follow the source line by line; the calls to the logger are left out, since
  they touch nothing of the state above.
\<close>

definition removeDomainIPMapping :: "env \<Rightarrow> domainBlock \<Rightarrow> string \<Rightarrow> options option \<Rightarrow> nat task" where
  "removeDomainIPMapping e this domain options =
     (let key = getDomainIPMappingKey this domain options in delAsync e key)"

definition getMappedIPAddresses :: "env \<Rightarrow> domainBlock \<Rightarrow> string \<Rightarrow> options option \<Rightarrow> string list task" where
  "getMappedIPAddresses e this domain options =
     (let key = getDomainIPMappingKey this domain options in smembersAsync e key)"

text \<open>
  \<open>addresses.forEach\<close> with an \<open>await\<close> in its callback: the calls are issued one after
  the other, and a rejected one is replaced by \<open>undefined\<close> before it is awaited.
\<close>

fun block_each :: "env \<Rightarrow> string list \<Rightarrow> unit task" where
  "block_each e [] = resolved ()"
| "block_each e (addr # addrs) =
     andThen (catch_with (Block_block e addr ''blocked_domain_set'') (\<lambda>err. ()))
       (\<lambda>_. block_each e addrs)"

fun unblock_each :: "env \<Rightarrow> string list \<Rightarrow> unit task" where
  "unblock_each e [] = resolved ()"
| "unblock_each e (addr # addrs) =
     andThen (catch_with (Block_unblock e addr ''blocked_domain_set'') (\<lambda>err. ()))
       (\<lambda>_. unblock_each e addrs)"

text \<open>
  \<open>smembersAsync\<close> resolves to an array, and every array is truthy, so the test
  \<open>if(addresses)\<close> always passes.
\<close>

definition applyBlock :: "env \<Rightarrow> domainBlock \<Rightarrow> string \<Rightarrow> options option \<Rightarrow> unit task" where
  "applyBlock e this domain options =
     andThen (getMappedIPAddresses e this domain options) (\<lambda>addresses. block_each e addresses)"

definition unapplyBlock :: "env \<Rightarrow> domainBlock \<Rightarrow> string \<Rightarrow> options option \<Rightarrow> unit task" where
  "unapplyBlock e this domain options =
     andThen (getMappedIPAddresses e this domain options) (\<lambda>addresses. unblock_each e addresses)"

definition resolveDomain :: "env \<Rightarrow> string \<Rightarrow> string list task" where
  "resolveDomain e domain =
     andThen (catch_with (resolve4Async e domain) (\<lambda>err. [])) (\<lambda>v4Addresses.
     andThen (addReverseDns domain v4Addresses) (\<lambda>_.
     andThen (catch_with (resolve6Async e domain) (\<lambda>err. [])) (\<lambda>v6Addresses.
     andThen (addReverseDns domain v6Addresses) (\<lambda>_.
     resolved (v4Addresses @ v6Addresses)))))"

definition syncDomainIPMapping :: "env \<Rightarrow> domainBlock \<Rightarrow> string \<Rightarrow> options option \<Rightarrow> nat task" where
  "syncDomainIPMapping e this domain options =
     (let options = or_empty options;
          key = getDomainIPMappingKey this domain (Some options) in
      andThen (resolveDomain e domain) (\<lambda>_.
      andThen (catch_with (getAddressesByDNS e domain) (\<lambda>err. [])) (\<lambda>addresses.
      andThen
        (if \<not> truthy_flag (exactMatch options)
         then andThen (catch_with (getAddressesByDNSPattern e domain) (\<lambda>err. []))
                (\<lambda>patternAddresses. resolved (([] @ addresses) @ patternAddresses))
         else resolved ([] @ addresses))
        (\<lambda>list. saddAsync e key list))))"

text \<open>
  The loop \<open>for(let addr in set)\<close> of the reconciler. The keys of \<open>set\<close> are IP address
  strings, which JavaScript enumerates in insertion order; \<open>existingSet\<close> is not updated
  inside the loop. A rejected \<open>saddAsync\<close> is thrown out of the loop.
\<close>

fun add_new :: "env \<Rightarrow> string \<Rightarrow> string list \<Rightarrow> string list \<Rightarrow> unit task" where
  "add_new e key existingSet [] = resolved ()"
| "add_new e key existingSet (addr # addrs) =
     (if addr \<notin> set existingSet
      then andThen (saddAsync e key [addr]) (\<lambda>_.
           andThen (catch_with (Block_block e addr ''blocked_domain_set'') (\<lambda>err. ())) (\<lambda>_.
           add_new e key existingSet addrs))
      else add_new e key existingSet addrs)"

subsection \<open>The bodies that run with the lock taken\<close>

definition blockDomain_locked :: "env \<Rightarrow> domainBlock \<Rightarrow> string \<Rightarrow> options \<Rightarrow> unit task" where
  "blockDomain_locked e this domain options =
     andThen (catch_with (addPolicyFilterEntry e domain) (\<lambda>err. ())) (\<lambda>_.
     andThen emitEvent (\<lambda>_.
     andThen (syncDomainIPMapping e this domain (Some options)) (\<lambda>_.
     andThen (applyBlock e this domain (Some options)) (\<lambda>_.
     setTimeout_incrementalUpdate domain options (60 * 1000)))))"

definition unblockDomain_locked :: "env \<Rightarrow> domainBlock \<Rightarrow> string \<Rightarrow> options option \<Rightarrow> unit task" where
  "unblockDomain_locked e this domain options =
     andThen (unapplyBlock e this domain options) (\<lambda>_.
     andThen
       (if \<not> truthy_string (this_externalMapping this)
        then andThen (removeDomainIPMapping e this domain options) (\<lambda>_. resolved ())
        else resolved ()) (\<lambda>_.
     andThen (catch_with (removePolicyFilterEntry e domain) (\<lambda>err. ())) (\<lambda>_.
     emitEvent)))"

definition incrementalUpdateIPMapping_locked :: "env \<Rightarrow> domainBlock \<Rightarrow> string \<Rightarrow> options \<Rightarrow> unit task" where
  "incrementalUpdateIPMapping_locked e this domain options =
     (let key = getDomainIPMappingKey this domain (Some options) in
      andThen (existsAsync e key) (\<lambda>existing.
      if \<not> existing then resolved ()
      else
        andThen (resolveDomain e domain) (\<lambda>_.
        andThen (catch_with (getAddressesByDNS e domain) (\<lambda>err. [])) (\<lambda>addresses.
        andThen
          (if \<not> truthy_flag (exactMatch options)
           then andThen (catch_with (getAddressesByDNSPattern e domain) (\<lambda>err. []))
                  (\<lambda>patternAddresses. resolved (foldl put (foldl put [] addresses) patternAddresses))
           else resolved (foldl put [] addresses)) (\<lambda>set.
        andThen (getMappedIPAddresses e this domain (Some options)) (\<lambda>existingAddresses.
        add_new e key (foldl put [] existingAddresses) set))))))"

subsection \<open>The lock\<close>

text \<open>
  \<open>delay(t)\<close> suspends the task; when it resumes, the lock and the store are what the rest
  of the process has made of them.
\<close>

definition delay :: "env \<Rightarrow> nat \<Rightarrow> world \<Rightarrow> world" where
  "delay e t w =
     (case during_delay e (now w) (globalLock w, store w) of
        (l, s) \<Rightarrow> (emit (Delay t) w)\<lparr>globalLock := l, store := s\<rparr>)"

text \<open>
  \<open>return this.blockDomain(domain, options)\<close> inside the \<open>async\<close> body: the promise of
  the caller adopts the promise of the retry. The retry's own \<open>finally\<close> handler has run
  by then and has released the lock, so the tasks that were waiting for it may run, and
  may take it, before the caller's promise settles and the caller's handler runs. The
  outcome of the retry is passed on as it is.
\<close>

definition adopt :: "env \<Rightarrow> (error + 'a) \<times> world \<Rightarrow> (error + 'a) \<times> world" where
  "adopt e rw =
     (case rw of (r, w) \<Rightarrow>
        (case during_adoption e (now w) (globalLock w, store w) of
           (l, s) \<Rightarrow> (r, w\<lparr>globalLock := l, store := s\<rparr>)))"

text \<open>The handler given to \<open>finally\<close>: \<open>globalLock = false\<close>.\<close>

definition release :: "(error + 'a) \<times> world \<Rightarrow> (error + 'a) \<times> world" where
  "release rw = (case rw of (r, w) \<Rightarrow> (r, w\<lparr>globalLock := False\<rparr>))"

text \<open>
  The three public workflows. A task that finds the lock taken sleeps and calls itself
  again, with no bound on how often; the first argument bounds the number of calls, and
  \<open>None\<close> means that the promise has not settled within that many. The \<open>finally\<close>
  handler is attached to the promise of the body, whichever branch the body takes.
\<close>

fun blockDomain :: "nat \<Rightarrow> env \<Rightarrow> domainBlock \<Rightarrow> string \<Rightarrow> options option \<Rightarrow> world \<Rightarrow> ((error + unit) \<times> world) option" where
  "blockDomain 0 e this domain options w = None"
| "blockDomain (Suc n) e this domain options w =
     (let options = or_empty options in
      map_option release
        (if globalLock w
         then map_option (adopt e) (blockDomain n e this domain (Some options) (delay e 5000 w))
         else Some (blockDomain_locked e this domain options (w\<lparr>globalLock := True\<rparr>))))"

fun unblockDomain :: "nat \<Rightarrow> env \<Rightarrow> domainBlock \<Rightarrow> string \<Rightarrow> options option \<Rightarrow> world \<Rightarrow> ((error + unit) \<times> world) option" where
  "unblockDomain 0 e this domain options w = None"
| "unblockDomain (Suc n) e this domain options w =
     map_option release
       (if globalLock w
        then map_option (adopt e) (unblockDomain n e this domain options (delay e 5000 w))
        else Some (unblockDomain_locked e this domain options (w\<lparr>globalLock := True\<rparr>)))"

fun incrementalUpdateIPMapping :: "nat \<Rightarrow> env \<Rightarrow> domainBlock \<Rightarrow> string \<Rightarrow> options option \<Rightarrow> world \<Rightarrow> ((error + unit) \<times> world) option" where
  "incrementalUpdateIPMapping 0 e this domain options w = None"
| "incrementalUpdateIPMapping (Suc n) e this domain options w =
     (let options = or_empty options in
      map_option release
        (if globalLock w
         then map_option (adopt e)
                (incrementalUpdateIPMapping n e this domain (Some options) (delay e 5000 w))
         else Some (incrementalUpdateIPMapping_locked e this domain options (w\<lparr>globalLock := True\<rparr>))))"

section \<open>Notions used in the statements\<close>

text \<open>The calls that one pass over a list of addresses issues.\<close>

definition block_calls :: "string list \<Rightarrow> event list" where
  "block_calls addrs = map (\<lambda>addr. Block addr ''blocked_domain_set'') addrs"

definition unblock_calls :: "string list \<Rightarrow> event list" where
  "unblock_calls addrs = map (\<lambda>addr. Unblock addr ''blocked_domain_set'') addrs"

text \<open>The world after a sequence of calls that change nothing else.\<close>

definition issue :: "event list \<Rightarrow> world \<Rightarrow> world" where
  "issue evs w = w\<lparr>trace := trace w @ evs\<rparr>"

text \<open>What a lookup contributes once its rejection has been replaced by \<open>[]\<close>.\<close>

definition answer :: "(nat \<Rightarrow> bool) \<Rightarrow> (nat \<Rightarrow> string \<Rightarrow> string list) \<Rightarrow> nat \<Rightarrow> string \<Rightarrow> string list" where
  "answer failed ans n d = (if failed n then [] else ans n d)"

text \<open>The calls of \<open>resolveDomain\<close> when its first call has index \<open>n\<close>.\<close>

definition resolve_calls :: "env \<Rightarrow> string \<Rightarrow> nat \<Rightarrow> event list" where
  "resolve_calls e d n =
     [Resolve4 d, AddReverseDns d (answer (dns_fails e) (dns4 e) n d),
      Resolve6 d, AddReverseDns d (answer (dns_fails e) (dns6 e) (n + 2) d)]"

text \<open>
  The reverse-DNS lookups of the merge step, and the addresses they contribute, when the
  exact lookup has index \<open>n\<close>.
\<close>

definition lookup_calls :: "options \<Rightarrow> string \<Rightarrow> event list" where
  "lookup_calls opts d =
     GetAddressesByDNS d # (if truthy_flag (exactMatch opts) then [] else [GetAddressesByDNSPattern d])"

definition candidates :: "env \<Rightarrow> options \<Rightarrow> string \<Rightarrow> nat \<Rightarrow> string list" where
  "candidates e opts d n =
     answer (rdns_fails e) (rdns_exact e) n d
       @ (if truthy_flag (exactMatch opts) then [] else answer (rdns_fails e) (rdns_pattern e) (Suc n) d)"

text \<open>
  A run from \<open>w\<close> to \<open>w'\<close> that leaves the lock alone, only appends calls satisfying
  \<open>P\<close>, and removes no member from any key of the store.
\<close>

definition steps :: "(event \<Rightarrow> bool) \<Rightarrow> world \<Rightarrow> world \<Rightarrow> bool" where
  "steps P w w' \<longleftrightarrow>
     globalLock w' = globalLock w
     \<and> (\<exists>evs. trace w' = trace w @ evs \<and> list_all P evs)
     \<and> (\<forall>k. set (store w k) \<subseteq> set (store w' k))"

text \<open>The calls that the reconciler can issue; the pattern lookup only outside exact mode.\<close>

fun reconciler_call :: "bool \<Rightarrow> event \<Rightarrow> bool" where
  "reconciler_call exact (Delay t) = True"
| "reconciler_call exact (Exists k) = True"
| "reconciler_call exact (Resolve4 d) = True"
| "reconciler_call exact (Resolve6 d) = True"
| "reconciler_call exact (AddReverseDns d as) = True"
| "reconciler_call exact (GetAddressesByDNS d) = True"
| "reconciler_call exact (GetAddressesByDNSPattern d) = (\<not> exact)"
| "reconciler_call exact (SMembers k) = True"
| "reconciler_call exact (SAdd k as) = True"
| "reconciler_call exact (Block a s) = True"
| "reconciler_call exact ev = False"

text \<open>What a settled workflow leaves: its calls, and the members of a key.\<close>

definition calls_of :: "((error + 'a) \<times> world) option \<Rightarrow> event list option" where
  "calls_of out = map_option (\<lambda>rw. trace (snd rw)) out"

definition result_of :: "((error + 'a) \<times> world) option \<Rightarrow> (error + 'a) option" where
  "result_of out = map_option fst out"

definition members_of :: "string \<Rightarrow> ((error + 'a) \<times> world) option \<Rightarrow> string list option" where
  "members_of key out = map_option (\<lambda>rw. store (snd rw) key) out"

definition lock_of :: "((error + 'a) \<times> world) option \<Rightarrow> bool option" where
  "lock_of out = map_option (\<lambda>rw. globalLock (snd rw)) out"

section \<open>Concrete inputs\<close>

definition this_plain :: domainBlock where
  "this_plain = \<lparr>this_externalMapping = None\<rparr>"

definition this_external :: domainBlock where
  "this_external = \<lparr>this_externalMapping = Some ''custom:set''\<rparr>"

definition options_external :: options where
  "options_external = \<lparr>exactMatch = None, externalMapping = Some ''custom:set''\<rparr>"

definition options_exact :: options where
  "options_exact = \<lparr>exactMatch = Some True, externalMapping = None\<rparr>"

text \<open>
  A collaborator set-up in which nothing fails: the domain resolves to \<open>1.2.3.4\<close>, the
  cache has seen \<open>5.6.7.8\<close> for the domain and \<open>9.9.9.9\<close> for a subdomain, and the other
  tasks release the lock while this one sleeps and leave it alone afterwards.
\<close>

definition env_ok :: env where
  "env_ok = \<lparr>dns_fails = (\<lambda>n. False), rdns_fails = (\<lambda>n. False), store_fails = (\<lambda>n. False),
              block_fails = (\<lambda>n. False), filter_fails = (\<lambda>n. False),
              dns4 = (\<lambda>n d. [''1.2.3.4'']), dns6 = (\<lambda>n d. []),
              rdns_exact = (\<lambda>n d. [''1.2.3.4'', ''5.6.7.8'']), rdns_pattern = (\<lambda>n d. [''9.9.9.9'']),
              during_delay = (\<lambda>n ls. (False, snd ls)),
              during_adoption = (\<lambda>n ls. ls)\<rparr>"

text \<open>
  The same with contention: as soon as a retry has released the lock, another task takes
  it, before the promise of the deferred caller settles.
\<close>

definition env_contended :: env where
  "env_contended = env_ok\<lparr>during_adoption := (\<lambda>n ls. (True, snd ls))\<rparr>"

text \<open>The same with the mapping store down, and with the block primitive down.\<close>

definition env_store_down :: env where
  "env_store_down = env_ok\<lparr>store_fails := (\<lambda>n. True)\<rparr>"

definition env_block_down :: env where
  "env_block_down = env_ok\<lparr>block_fails := (\<lambda>n. True)\<rparr>"

text \<open>
  The mapping store up and the rest failing: the resolver, the DNS filter and the block
  primitive at every call, the reverse-DNS cache at the call of index 7 (the pattern lookup
  of a \<open>blockDomain\<close> that starts with no call recorded).
\<close>

definition env_others_down :: env where
  "env_others_down = env_ok\<lparr>dns_fails := (\<lambda>n. True), rdns_fails := (\<lambda>n. n = 7),
                            block_fails := (\<lambda>n. True), filter_fails := (\<lambda>n. True)\<rparr>"

text \<open>The same with nothing to be found: no address resolves and the cache is empty.\<close>

definition env_quiet :: env where
  "env_quiet = env_ok\<lparr>dns4 := (\<lambda>n d. []), rdns_exact := (\<lambda>n d. []), rdns_pattern := (\<lambda>n d. [])\<rparr>"

text \<open>Worlds: an empty store; a two-address mapping; an override key beside a derived one.\<close>

definition world_empty :: world where
  "world_empty = \<lparr>globalLock = False, store = (\<lambda>k. []), trace = []\<rparr>"

definition world_two :: world where
  "world_two = \<lparr>globalLock = False,
                 store = (\<lambda>k. if k = ''ipmapping:domain:example.com'' then [''1.2.3.4'', ''5.6.7.8''] else []),
                 trace = []\<rparr>"

definition world_locked :: world where
  "world_locked = world_two\<lparr>globalLock := True\<rparr>"

definition world_exact :: world where
  "world_exact = \<lparr>globalLock = False,
                   store = (\<lambda>k. if k = ''ipmapping:exactdomain:example.com'' then [''1.2.3.4''] else []),
                   trace = []\<rparr>"

definition world_custom :: world where
  "world_custom = \<lparr>globalLock = False,
                    store = (\<lambda>k. if k = ''custom:set'' then [''9.9.9.9'']
                                else if k = ''ipmapping:domain:example.com'' then [''1.2.3.4''] else []),
                    trace = []\<rparr>"

section \<open>Basic facts about the model\<close>

lemma key_or_empty:
  "getDomainIPMappingKey this domain (Some (or_empty options)) = getDomainIPMappingKey this domain options"
  by (simp add: getDomainIPMappingKey_def or_empty_def)

lemma or_empty_Some: "or_empty (Some opts) = opts"
  by (simp add: or_empty_def)

lemma emit_simps:
  "globalLock (emit ev w) = globalLock w"
  "store (emit ev w) = store w"
  "trace (emit ev w) = trace w @ [ev]"
  "now (emit ev w) = Suc (now w)"
  by (simp_all add: emit_def now_def)

lemma issue_simps:
  "globalLock (issue evs w) = globalLock w"
  "store (issue evs w) = store w"
  "trace (issue evs w) = trace w @ evs"
  "now (issue evs w) = now w + length evs"
  "issue evs (issue evs' w) = issue (evs' @ evs) w"
  "emit ev (issue evs w) = issue (evs @ [ev]) w"
  by (simp_all add: issue_def emit_def now_def)

lemma emit_issue: "emit ev w = issue [ev] w"
  by (simp add: issue_def emit_def)

lemma andThen_Inr: "m w = (Inr x, w') \<Longrightarrow> andThen m f w = f x w'"
  by (simp add: andThen_def)

lemma andThen_Inl: "m w = (Inl err, w') \<Longrightarrow> andThen m f w = (Inl err, w')"
  by (simp add: andThen_def)

lemma set_foldl_put: "set (foldl put acc as) = set acc \<union> set as"
  by (induction as arbitrary: acc) (auto simp add: put_def)

subsection \<open>Calls whose rejection is caught\<close>

lemma caught_block:
  "catch_with (Block_block e addr s) (\<lambda>err. ()) w = (Inr (), emit (Block addr s) w)"
  by (simp add: catch_with_def external_def Block_block_def)

lemma caught_unblock:
  "catch_with (Block_unblock e addr s) (\<lambda>err. ()) w = (Inr (), emit (Unblock addr s) w)"
  by (simp add: catch_with_def external_def Block_unblock_def)

lemma caught_addFilter:
  "catch_with (addPolicyFilterEntry e d) (\<lambda>err. ()) w = (Inr (), emit (AddPolicyFilterEntry d) w)"
  by (simp add: catch_with_def external_def addPolicyFilterEntry_def)

lemma caught_removeFilter:
  "catch_with (removePolicyFilterEntry e d) (\<lambda>err. ()) w = (Inr (), emit (RemovePolicyFilterEntry d) w)"
  by (simp add: catch_with_def external_def removePolicyFilterEntry_def)

lemma caught_resolve4:
  "catch_with (resolve4Async e d) (\<lambda>err. []) w
     = (Inr (answer (dns_fails e) (dns4 e) (now w) d), emit (Resolve4 d) w)"
  by (simp add: catch_with_def external_def resolve4Async_def answer_def)

lemma caught_resolve6:
  "catch_with (resolve6Async e d) (\<lambda>err. []) w
     = (Inr (answer (dns_fails e) (dns6 e) (now w) d), emit (Resolve6 d) w)"
  by (simp add: catch_with_def external_def resolve6Async_def answer_def)

lemma caught_exact:
  "catch_with (getAddressesByDNS e d) (\<lambda>err. []) w
     = (Inr (answer (rdns_fails e) (rdns_exact e) (now w) d), emit (GetAddressesByDNS d) w)"
  by (simp add: catch_with_def external_def getAddressesByDNS_def answer_def)

lemma caught_pattern:
  "catch_with (getAddressesByDNSPattern e d) (\<lambda>err. []) w
     = (Inr (answer (rdns_fails e) (rdns_pattern e) (now w) d), emit (GetAddressesByDNSPattern d) w)"
  by (simp add: catch_with_def external_def getAddressesByDNSPattern_def answer_def)

subsection \<open>The block applier\<close>

lemma block_each_eq: "block_each e addrs w = (Inr (), issue (block_calls addrs) w)"
proof (induction addrs arbitrary: w)
  case Nil
  show ?case by (simp add: resolved_def issue_def block_calls_def)
next
  case (Cons a addrs)
  show ?case
    by (simp add: andThen_Inr [OF caught_block] Cons.IH block_calls_def emit_issue issue_simps)
qed

lemma unblock_each_eq: "unblock_each e addrs w = (Inr (), issue (unblock_calls addrs) w)"
proof (induction addrs arbitrary: w)
  case Nil
  show ?case by (simp add: resolved_def issue_def unblock_calls_def)
next
  case (Cons a addrs)
  show ?case
    by (simp add: andThen_Inr [OF caught_unblock] Cons.IH unblock_calls_def emit_issue issue_simps)
qed

lemma getMapped_ok:
  "\<not> store_fails e (now w) \<Longrightarrow>
   getMappedIPAddresses e this domain options w =
     (Inr (store w (getDomainIPMappingKey this domain options)),
      emit (SMembers (getDomainIPMappingKey this domain options)) w)"
  by (simp add: getMappedIPAddresses_def smembersAsync_def external_def)

lemma getMapped_fail:
  "store_fails e (now w) \<Longrightarrow>
   getMappedIPAddresses e this domain options w =
     (Inl StoreError, emit (SMembers (getDomainIPMappingKey this domain options)) w)"
  by (simp add: getMappedIPAddresses_def smembersAsync_def external_def)

lemma applyBlock_ok:
  "\<not> store_fails e (now w) \<Longrightarrow>
   applyBlock e this domain options w =
     (Inr (), issue (SMembers (getDomainIPMappingKey this domain options)
                 # block_calls (store w (getDomainIPMappingKey this domain options))) w)"
  by (simp add: applyBlock_def andThen_Inr [OF getMapped_ok] block_each_eq emit_issue issue_simps)

lemma unapplyBlock_ok:
  "\<not> store_fails e (now w) \<Longrightarrow>
   unapplyBlock e this domain options w =
     (Inr (), issue (SMembers (getDomainIPMappingKey this domain options)
                 # unblock_calls (store w (getDomainIPMappingKey this domain options))) w)"
  by (simp add: unapplyBlock_def andThen_Inr [OF getMapped_ok] unblock_each_eq emit_issue issue_simps)

lemma applyBlock_fail:
  "store_fails e (now w) \<Longrightarrow>
   applyBlock e this domain options w =
     (Inl StoreError, issue [SMembers (getDomainIPMappingKey this domain options)] w)"
  by (simp add: applyBlock_def andThen_Inl [OF getMapped_fail] emit_issue)

lemma unapplyBlock_fail:
  "store_fails e (now w) \<Longrightarrow>
   unapplyBlock e this domain options w =
     (Inl StoreError, issue [SMembers (getDomainIPMappingKey this domain options)] w)"
  by (simp add: unapplyBlock_def andThen_Inl [OF getMapped_fail] emit_issue)

subsection \<open>Resolution and merge\<close>

lemma resolveDomain_eq:
  "resolveDomain e d w =
     (Inr (answer (dns_fails e) (dns4 e) (now w) d @ answer (dns_fails e) (dns6 e) (now w + 2) d),
      issue (resolve_calls e d (now w)) w)"
  by (simp add: resolveDomain_def andThen_Inr [OF caught_resolve4] andThen_Inr [OF caught_resolve6]
      addReverseDns_def andThen_def resolved_def emit_issue issue_simps resolve_calls_def)

lemma length_resolve_calls: "length (resolve_calls e d n) = 4"
  by (simp add: resolve_calls_def)

lemma syncDomainIPMapping_eq:
  "syncDomainIPMapping e this d options w =
     saddAsync e (getDomainIPMappingKey this d options) (candidates e (or_empty options) d (now w + 4))
       (issue (resolve_calls e d (now w) @ lookup_calls (or_empty options) d) w)"
  by (simp add: syncDomainIPMapping_def Let_def key_or_empty andThen_Inr [OF resolveDomain_eq]
      andThen_Inr [OF caught_exact] andThen_Inr [OF caught_pattern] andThen_def resolved_def
      emit_issue issue_simps length_resolve_calls lookup_calls_def candidates_def add.commute)

subsection \<open>Runs that only add\<close>

lemma steps_refl: "steps P w w"
  by (simp add: steps_def)

lemma steps_trans: "steps P w w' \<Longrightarrow> steps P w' w'' \<Longrightarrow> steps P w w''"
  unfolding steps_def by (elim conjE exE) (auto intro: order_trans)

lemma steps_emit: "P ev \<Longrightarrow> steps P w (emit ev w)"
  by (simp add: steps_def emit_simps)

lemma steps_issue: "list_all P evs \<Longrightarrow> steps P w (issue evs w)"
  by (simp add: steps_def issue_simps)

lemma steps_resolved: "steps P w (snd (resolved x w))"
  by (simp add: resolved_def steps_refl)

lemma steps_andThen:
  assumes "steps P w (snd (m w))" and "\<And>x w'. steps P w' (snd (f x w'))"
  shows "steps P w (snd (andThen m f w))"
proof (cases "m w")
  case (Pair r w')
  show ?thesis
  proof (cases r)
    case (Inl err)
    with Pair assms(1) show ?thesis by (simp add: andThen_def)
  next
    case (Inr x)
    with Pair have "andThen m f w = f x w'" by (simp add: andThen_def)
    moreover from Pair assms(1) have "steps P w w'" by simp
    ultimately show ?thesis using assms(2) [of w' x] by (auto intro: steps_trans)
  qed
qed

lemma snd_catch_with: "snd (catch_with m h w) = snd (m w)"
  by (simp add: catch_with_def split: prod.splits sum.splits)

lemma steps_catch: "steps P w (snd (m w)) \<Longrightarrow> steps P w (snd (catch_with m h w))"
  by (simp add: snd_catch_with)

lemma steps_if:
  "(c \<Longrightarrow> steps P w (snd (m w))) \<Longrightarrow> (\<not> c \<Longrightarrow> steps P w (snd (m' w))) \<Longrightarrow>
   steps P w (snd ((if c then m else m') w))"
  by simp

lemma steps_external: "P ev \<Longrightarrow> steps P w (snd (external ev failed err x w))"
  by (simp add: external_def steps_emit)

lemma steps_sadd: "P (SAdd key ms) \<Longrightarrow> steps P w (snd (saddAsync e key ms w))"
  by (auto simp add: saddAsync_def steps_def emit_simps set_foldl_put)

lemma steps_getMapped:
  "P (SMembers (getDomainIPMappingKey this d options)) \<Longrightarrow>
   steps P w (snd (getMappedIPAddresses e this d options w))"
  by (simp add: getMappedIPAddresses_def smembersAsync_def steps_external)

lemma steps_add_new:
  "(\<And>a. P (SAdd key [a])) \<Longrightarrow> (\<And>a. P (Block a ''blocked_domain_set'')) \<Longrightarrow>
   steps P w (snd (add_new e key ex addrs w))"
proof (induction addrs arbitrary: w)
  case Nil
  show ?case by (simp add: steps_resolved)
next
  case (Cons a addrs)
  show ?case
  proof (cases "a \<in> set ex")
    case True
    then show ?thesis using Cons by simp
  next
    case False
    then show ?thesis
      using Cons
      by (auto intro!: steps_andThen steps_sadd steps_catch simp add: Block_block_def steps_external)
  qed
qed

lemma reconciler_resolve_calls: "list_all (reconciler_call exact) (resolve_calls e d n)"
  by (simp add: resolve_calls_def)

lemma steps_resolveDomain: "steps (reconciler_call exact) w (snd (resolveDomain e d w))"
  by (simp add: resolveDomain_eq steps_issue reconciler_resolve_calls)

lemma steps_incrementalUpdate_locked:
  "steps (reconciler_call (truthy_flag (exactMatch opts))) w
     (snd (incrementalUpdateIPMapping_locked e this d opts w))"
  unfolding incrementalUpdateIPMapping_locked_def Let_def
  by (intro steps_andThen steps_if steps_catch steps_resolved steps_resolveDomain steps_getMapped
      steps_add_new)
    (simp_all add: existsAsync_def getAddressesByDNS_def getAddressesByDNSPattern_def steps_external)

subsection \<open>The lock wrapper\<close>

lemma delay_simps:
  "trace (delay e t w) = trace w @ [Delay t]"
  "now (delay e t w) = Suc (now w)"
  by (simp_all add: delay_def emit_def now_def split: prod.splits)

lemma release_simps:
  "fst (release rw) = fst rw"
  "trace (snd (release rw)) = trace (snd rw)"
  "store (snd (release rw)) = store (snd rw)"
  "globalLock (snd (release rw)) = False"
  by (simp_all add: release_def split: prod.splits)

lemma adopt_simps:
  "fst (adopt e rw) = fst rw"
  "trace (snd (adopt e rw)) = trace (snd rw)"
  by (simp_all add: adopt_def split: prod.splits)

lemma incrementalUpdate_free:
  "\<not> globalLock w \<Longrightarrow>
   incrementalUpdateIPMapping (Suc n) e this d options w =
     Some (release (incrementalUpdateIPMapping_locked e this d (or_empty options) (w\<lparr>globalLock := True\<rparr>)))"
  by (simp add: Let_def)

lemma blockDomain_free:
  "\<not> globalLock w \<Longrightarrow>
   blockDomain (Suc n) e this d options w =
     Some (release (blockDomain_locked e this d (or_empty options) (w\<lparr>globalLock := True\<rparr>)))"
  by (simp add: Let_def)

lemma unblockDomain_free:
  "\<not> globalLock w \<Longrightarrow>
   unblockDomain (Suc n) e this d options w =
     Some (release (unblockDomain_locked e this d options (w\<lparr>globalLock := True\<rparr>)))"
  by simp

lemma incrementalUpdate_calls:
  "incrementalUpdateIPMapping n e this d options w = Some (r, w') \<Longrightarrow>
   \<exists>evs. trace w' = trace w @ evs
     \<and> list_all (reconciler_call (truthy_flag (exactMatch (or_empty options)))) evs"
proof (induction n arbitrary: w options r w')
  case 0
  then show ?case by simp
next
  case (Suc n)
  show ?case
  proof (cases "globalLock w")
    case True
    with Suc.prems obtain rw where
      inner: "incrementalUpdateIPMapping n e this d (Some (or_empty options)) (delay e 5000 w) = Some rw"
      and out: "release (adopt e rw) = (r, w')"
      by (auto simp add: Let_def)
    from out have tr: "trace w' = trace (snd rw)"
      using release_simps(2) [of "adopt e rw"] adopt_simps(2) [of e rw] by simp
    from inner have "incrementalUpdateIPMapping n e this d (Some (or_empty options)) (delay e 5000 w)
        = Some (fst rw, snd rw)" by simp
    from Suc.IH [OF this] obtain evs where
      "trace (snd rw) = trace (delay e 5000 w) @ evs"
      "list_all (reconciler_call (truthy_flag (exactMatch (or_empty options)))) evs"
      by (auto simp add: or_empty_Some)
    with tr have "trace w' = trace w @ (Delay 5000 # evs)
        \<and> list_all (reconciler_call (truthy_flag (exactMatch (or_empty options)))) (Delay 5000 # evs)"
      by (simp add: delay_simps)
    then show ?thesis by blast
  next
    case False
    let ?w0 = "w\<lparr>globalLock := True\<rparr>"
    let ?rw = "incrementalUpdateIPMapping_locked e this d (or_empty options) ?w0"
    from False Suc.prems have out: "release ?rw = (r, w')"
      by (simp add: incrementalUpdate_free)
    then have tr: "trace w' = trace (snd ?rw)"
      using release_simps(2) [of ?rw] by simp
    have "steps (reconciler_call (truthy_flag (exactMatch (or_empty options)))) ?w0 (snd ?rw)"
      by (rule steps_incrementalUpdate_locked)
    with tr show ?thesis by (auto simp add: steps_def)
  qed
qed

subsection \<open>Nothing but the pattern lookup reads the pattern answers\<close>

lemma pattern_irrelevant_calls:
  "resolve4Async (e\<lparr>rdns_pattern := p\<rparr>) = resolve4Async e"
  "resolve6Async (e\<lparr>rdns_pattern := p\<rparr>) = resolve6Async e"
  "getAddressesByDNS (e\<lparr>rdns_pattern := p\<rparr>) = getAddressesByDNS e"
  "saddAsync (e\<lparr>rdns_pattern := p\<rparr>) = saddAsync e"
  "existsAsync (e\<lparr>rdns_pattern := p\<rparr>) = existsAsync e"
  "smembersAsync (e\<lparr>rdns_pattern := p\<rparr>) = smembersAsync e"
  "Block_block (e\<lparr>rdns_pattern := p\<rparr>) = Block_block e"
  "delay (e\<lparr>rdns_pattern := p\<rparr>) = delay e"
  "adopt (e\<lparr>rdns_pattern := p\<rparr>) = adopt e"
  by (intro ext, simp add: resolve4Async_def resolve6Async_def getAddressesByDNS_def
      saddAsync_def existsAsync_def smembersAsync_def Block_block_def delay_def adopt_def)+

lemma pattern_irrelevant:
  "resolveDomain (e\<lparr>rdns_pattern := p\<rparr>) = resolveDomain e"
  "getMappedIPAddresses (e\<lparr>rdns_pattern := p\<rparr>) = getMappedIPAddresses e"
  by (intro ext, simp add: resolveDomain_def getMappedIPAddresses_def pattern_irrelevant_calls)+

lemma add_new_pattern_irrelevant:
  "add_new (e\<lparr>rdns_pattern := p\<rparr>) key ex addrs = add_new e key ex addrs"
  by (induction addrs) (simp_all add: pattern_irrelevant_calls)

lemma sync_pattern_irrelevant:
  "truthy_flag (exactMatch (or_empty options)) \<Longrightarrow>
   syncDomainIPMapping (e\<lparr>rdns_pattern := p\<rparr>) this d options = syncDomainIPMapping e this d options"
  by (simp add: syncDomainIPMapping_def Let_def pattern_irrelevant pattern_irrelevant_calls)

lemma incrementalUpdate_locked_pattern_irrelevant:
  "truthy_flag (exactMatch opts) \<Longrightarrow>
   incrementalUpdateIPMapping_locked (e\<lparr>rdns_pattern := p\<rparr>) this d opts
     = incrementalUpdateIPMapping_locked e this d opts"
  by (simp add: incrementalUpdateIPMapping_locked_def Let_def pattern_irrelevant
      pattern_irrelevant_calls add_new_pattern_irrelevant cong: if_cong)

lemma incrementalUpdate_pattern_irrelevant:
  "truthy_flag (exactMatch (or_empty options)) \<Longrightarrow>
   incrementalUpdateIPMapping n (e\<lparr>rdns_pattern := p\<rparr>) this d options w
     = incrementalUpdateIPMapping n e this d options w"
proof (induction n arbitrary: w options)
  case 0
  show ?case by simp
next
  case (Suc n)
  from Suc.prems have "truthy_flag (exactMatch (or_empty (Some (or_empty options))))"
    by (simp add: or_empty_Some)
  from Suc.IH [OF this] Suc.prems show ?case
    by (simp add: Let_def pattern_irrelevant_calls incrementalUpdate_locked_pattern_irrelevant)
qed

lemma trace_sadd: "trace (snd (saddAsync e key ms w)) = trace w @ [SAdd key ms]"
  by (simp add: saddAsync_def emit_simps)

lemma no_sadd_before:
  "SAdd k ms \<notin> set (resolve_calls e d n @ lookup_calls opts d)"
  by (simp add: resolve_calls_def lookup_calls_def)

lemma key_plain:
  "getDomainIPMappingKey this_plain ''example.com'' None = ''ipmapping:domain:example.com''"
  "getDomainIPMappingKey this_plain ''example.com'' (Some options_external) = ''ipmapping:domain:example.com''"
  "getDomainIPMappingKey this_plain ''example.com'' (Some options_exact) = ''ipmapping:exactdomain:example.com''"
  by (simp_all add: getDomainIPMappingKey_def this_plain_def or_empty_def empty_options_def
      options_external_def options_exact_def truthy_string_def truthy_flag_def)

subsection \<open>Evaluation on concrete inputs\<close>

lemmas run_defs =
  andThen_def catch_with_def resolved_def external_def emit_def now_def release_def delay_def
  adopt_def
  addPolicyFilterEntry_def removePolicyFilterEntry_def emitEvent_def setTimeout_incrementalUpdate_def
  resolve4Async_def resolve6Async_def Block_block_def Block_unblock_def addReverseDns_def
  getAddressesByDNS_def getAddressesByDNSPattern_def put_def saddAsync_def smembersAsync_def
  existsAsync_def delAsync_def removeDomainIPMapping_def getMappedIPAddresses_def
  applyBlock_def unapplyBlock_def resolveDomain_def syncDomainIPMapping_def
  blockDomain_locked_def unblockDomain_locked_def incrementalUpdateIPMapping_locked_def
  or_empty_def empty_options_def truthy_flag_def truthy_string_def string_value_def
  getDomainIPMappingKey_def calls_of_def result_of_def members_of_def lock_of_def Let_def

subsection \<open>One pass of the reconciler\<close>

lemma incrementalUpdate_pass:
  assumes "\<not> globalLock w"
  shows "\<exists>r w'. incrementalUpdateIPMapping (Suc n) e this d options w = Some (r, w')
           \<and> \<not> globalLock w'
           \<and> (\<forall>k. set (store w k) \<subseteq> set (store w' k))
           \<and> (\<exists>evs. trace w' = trace w @ evs
                 \<and> list_all (reconciler_call (truthy_flag (exactMatch (or_empty options)))) evs)"
proof -
  let ?w0 = "w\<lparr>globalLock := True\<rparr>"
  let ?rw = "incrementalUpdateIPMapping_locked e this d (or_empty options) ?w0"
  have run: "incrementalUpdateIPMapping (Suc n) e this d options w
      = Some (fst (release ?rw), snd (release ?rw))"
    using assms by (simp add: incrementalUpdate_free)
  have st: "steps (reconciler_call (truthy_flag (exactMatch (or_empty options)))) ?w0 (snd ?rw)"
    by (rule steps_incrementalUpdate_locked)
  have "\<forall>k. set (store w k) \<subseteq> set (store (snd (release ?rw)) k)"
    using st by (simp add: steps_def release_simps)
  moreover have "\<exists>evs. trace (snd (release ?rw)) = trace w @ evs
      \<and> list_all (reconciler_call (truthy_flag (exactMatch (or_empty options)))) evs"
    using st by (simp add: steps_def release_simps)
  moreover have "\<not> globalLock (snd (release ?rw))"
    by (simp add: release_simps)
  ultimately show ?thesis using run by blast
qed

subsection \<open>The body of unblockDomain, case by case\<close>

lemma del_ok:
  "\<not> store_fails e (now w) \<Longrightarrow>
   removeDomainIPMapping e this d options w =
     (Inr (if store w (getDomainIPMappingKey this d options) \<noteq> [] then 1 else 0),
      (emit (Del (getDomainIPMappingKey this d options)) w)
        \<lparr>store := (store w)(getDomainIPMappingKey this d options := [])\<rparr>)"
  by (simp add: removeDomainIPMapping_def delAsync_def)

lemma del_fail:
  "store_fails e (now w) \<Longrightarrow>
   removeDomainIPMapping e this d options w =
     (Inl StoreError, emit (Del (getDomainIPMappingKey this d options)) w)"
  by (simp add: removeDomainIPMapping_def delAsync_def)

lemma length_unblock_calls: "length (unblock_calls as) = length as"
  by (simp add: unblock_calls_def)

lemma unblockDomain_locked_read_fail:
  "store_fails e (now w) \<Longrightarrow>
   unblockDomain_locked e this d options w =
     (Inl StoreError, issue [SMembers (getDomainIPMappingKey this d options)] w)"
  by (simp add: unblockDomain_locked_def andThen_def unapplyBlock_fail)

lemma unblockDomain_locked_external:
  "\<not> store_fails e (now w) \<Longrightarrow> truthy_string (this_externalMapping this) \<Longrightarrow>
   unblockDomain_locked e this d options w =
     (Inr (), issue (SMembers (getDomainIPMappingKey this d options)
                 # unblock_calls (store w (getDomainIPMappingKey this d options))
                 @ [RemovePolicyFilterEntry d, EmitReloadDNSRule]) w)"
  by (simp add: unblockDomain_locked_def andThen_def unapplyBlock_ok caught_removeFilter
      resolved_def emitEvent_def emit_issue issue_simps)

lemma unblockDomain_locked_del_fail:
  assumes "\<not> store_fails e (now w)" and "\<not> truthy_string (this_externalMapping this)"
    and "store_fails e (Suc (now w + length (store w (getDomainIPMappingKey this d options))))"
  shows "unblockDomain_locked e this d options w =
     (Inl StoreError, issue (SMembers (getDomainIPMappingKey this d options)
                 # unblock_calls (store w (getDomainIPMappingKey this d options))
                 @ [Del (getDomainIPMappingKey this d options)]) w)"
proof -
  let ?key = "getDomainIPMappingKey this d options"
  let ?w1 = "issue (SMembers ?key # unblock_calls (store w ?key)) w"
  have "store_fails e (now ?w1)"
    using assms(3) by (simp add: issue_simps length_unblock_calls)
  then have "removeDomainIPMapping e this d options ?w1 = (Inl StoreError, emit (Del ?key) ?w1)"
    by (rule del_fail)
  then show ?thesis
    using assms(1,2)
    by (simp add: unblockDomain_locked_def andThen_def unapplyBlock_ok issue_simps)
qed

lemma unblockDomain_locked_ok:
  assumes "\<not> store_fails e (now w)" and "\<not> truthy_string (this_externalMapping this)"
    and "\<not> store_fails e (Suc (now w + length (store w (getDomainIPMappingKey this d options))))"
  shows "unblockDomain_locked e this d options w =
     (Inr (), (issue (SMembers (getDomainIPMappingKey this d options)
                 # unblock_calls (store w (getDomainIPMappingKey this d options))
                 @ [Del (getDomainIPMappingKey this d options),
                    RemovePolicyFilterEntry d, EmitReloadDNSRule]) w)
               \<lparr>store := (store w)(getDomainIPMappingKey this d options := [])\<rparr>)"
proof -
  let ?key = "getDomainIPMappingKey this d options"
  let ?w1 = "issue (SMembers ?key # unblock_calls (store w ?key)) w"
  have "\<not> store_fails e (now ?w1)"
    using assms(3) by (simp add: issue_simps length_unblock_calls)
  then have "removeDomainIPMapping e this d options ?w1
      = (Inr (if store ?w1 ?key \<noteq> [] then 1 else 0), (emit (Del ?key) ?w1)\<lparr>store := (store ?w1)(?key := [])\<rparr>)"
    by (rule del_ok)
  then show ?thesis
    using assms(1,2)
    by (simp add: unblockDomain_locked_def andThen_def unapplyBlock_ok caught_removeFilter
        resolved_def emitEvent_def issue_def emit_def)
qed

lemma now_lock: "now (w\<lparr>globalLock := b\<rparr>) = now w"
  by (simp add: now_def)

subsection \<open>Runs that resolve\<close>

lemma runs_andThen:
  assumes "\<not> isl (fst (m w))" and "\<And>x w'. \<not> isl (fst (f x w'))"
  shows "\<not> isl (fst (andThen m f w))"
proof (cases "m w")
  case (Pair r w')
  with assms(1) obtain x where "r = Inr x" by (cases r) auto
  with Pair have "andThen m f w = f x w'" by (simp add: andThen_def)
  with assms(2) show ?thesis by simp
qed

lemma runs_catch: "\<not> isl (fst (catch_with m h w))"
  by (simp add: catch_with_def split: prod.splits sum.splits)

lemma runs_resolved: "\<not> isl (fst (resolved x w))"
  by (simp add: resolved_def)

lemma runs_if:
  "(c \<Longrightarrow> \<not> isl (fst (m w))) \<Longrightarrow> (\<not> c \<Longrightarrow> \<not> isl (fst (m' w))) \<Longrightarrow>
   \<not> isl (fst ((if c then m else m') w))"
  by simp

lemma runs_store:
  assumes "\<forall>n. \<not> store_fails e n"
  shows "\<not> isl (fst (saddAsync e key ms w))"
    and "\<not> isl (fst (existsAsync e key w))"
    and "\<not> isl (fst (getMappedIPAddresses e this d options w))"
    and "\<not> isl (fst (removeDomainIPMapping e this d options w))"
  using assms
  by (simp_all add: saddAsync_def existsAsync_def getMappedIPAddresses_def smembersAsync_def
      removeDomainIPMapping_def delAsync_def external_def)

lemma runs_resolveDomain: "\<not> isl (fst (resolveDomain e d w))"
  by (simp add: resolveDomain_eq)

lemma runs_each:
  "\<not> isl (fst (block_each e addrs w))"
  "\<not> isl (fst (unblock_each e addrs w))"
  by (simp_all add: block_each_eq unblock_each_eq)

lemma runs_add_new:
  assumes "\<forall>n. \<not> store_fails e n"
  shows "\<not> isl (fst (add_new e key ex addrs w))"
proof (induction addrs arbitrary: w)
  case Nil
  show ?case by (simp add: runs_resolved)
next
  case (Cons a addrs)
  show ?case
  proof (cases "a \<in> set ex")
    case True
    then show ?thesis using Cons by simp
  next
    case False
    have "\<not> isl (fst (andThen (saddAsync e key [a])
        (\<lambda>_. andThen (catch_with (Block_block e a ''blocked_domain_set'') (\<lambda>err. ()))
          (\<lambda>_. add_new e key ex addrs)) w))"
      by (intro runs_andThen runs_catch runs_store(1) [OF assms] Cons.IH)
    with False show ?thesis by simp
  qed
qed

lemma runs_sync:
  assumes "\<forall>n. \<not> store_fails e n"
  shows "\<not> isl (fst (syncDomainIPMapping e this d options w))"
  by (simp add: syncDomainIPMapping_eq runs_store(1) [OF assms])

lemma runs_blockDomain_locked:
  assumes "\<forall>n. \<not> store_fails e n"
  shows "\<not> isl (fst (blockDomain_locked e this d opts w))"
  unfolding blockDomain_locked_def applyBlock_def
  by (intro runs_andThen runs_catch runs_sync [OF assms] runs_store [OF assms] runs_each)
    (simp_all add: emitEvent_def setTimeout_incrementalUpdate_def)

lemma runs_unblockDomain_locked:
  assumes "\<forall>n. \<not> store_fails e n"
  shows "\<not> isl (fst (unblockDomain_locked e this d options w))"
  unfolding unblockDomain_locked_def unapplyBlock_def
  by (intro runs_andThen runs_if runs_catch runs_resolved runs_store [OF assms] runs_each)
    (simp_all add: emitEvent_def)

lemma runs_incrementalUpdate_locked:
  assumes "\<forall>n. \<not> store_fails e n"
  shows "\<not> isl (fst (incrementalUpdateIPMapping_locked e this d opts w))"
  unfolding incrementalUpdateIPMapping_locked_def Let_def
  by (intro runs_andThen runs_if runs_catch runs_resolved runs_resolveDomain
      runs_store [OF assms] runs_add_new [OF assms])

lemma resolved_unit: "\<not> isl r \<Longrightarrow> r = Inr ()"
  by (cases r) auto

lemma blockDomain_settles_resolved:
  "\<forall>n. \<not> store_fails e n \<Longrightarrow> blockDomain n e this d options w = Some (r, w') \<Longrightarrow> r = Inr ()"
proof (induction n arbitrary: w options r w')
  case 0
  then show ?case by simp
next
  case (Suc n)
  show ?case
  proof (cases "globalLock w")
    case True
    with Suc.prems(2) obtain rw where
      inner: "blockDomain n e this d (Some (or_empty options)) (delay e 5000 w) = Some rw"
      and out: "release (adopt e rw) = (r, w')"
      by (auto simp add: Let_def)
    from inner have "blockDomain n e this d (Some (or_empty options)) (delay e 5000 w)
        = Some (fst rw, snd rw)" by simp
    from Suc.IH [OF Suc.prems(1) this] out show ?thesis
      using release_simps(1) [of "adopt e rw"] adopt_simps(1) [of e rw] by simp
  next
    case False
    with Suc.prems(2) have "r = fst (blockDomain_locked e this d (or_empty options) (w\<lparr>globalLock := True\<rparr>))"
      using release_simps(1) [of "blockDomain_locked e this d (or_empty options) (w\<lparr>globalLock := True\<rparr>)"]
      by (simp add: blockDomain_free)
    with runs_blockDomain_locked [OF Suc.prems(1)] show ?thesis
      by (simp add: resolved_unit)
  qed
qed

lemma unblockDomain_settles_resolved:
  "\<forall>n. \<not> store_fails e n \<Longrightarrow> unblockDomain n e this d options w = Some (r, w') \<Longrightarrow> r = Inr ()"
proof (induction n arbitrary: w r w')
  case 0
  then show ?case by simp
next
  case (Suc n)
  show ?case
  proof (cases "globalLock w")
    case True
    with Suc.prems(2) obtain rw where
      inner: "unblockDomain n e this d options (delay e 5000 w) = Some rw"
      and out: "release (adopt e rw) = (r, w')"
      by auto
    from inner have "unblockDomain n e this d options (delay e 5000 w) = Some (fst rw, snd rw)"
      by simp
    from Suc.IH [OF Suc.prems(1) this] out show ?thesis
      using release_simps(1) [of "adopt e rw"] adopt_simps(1) [of e rw] by simp
  next
    case False
    with Suc.prems(2) have "r = fst (unblockDomain_locked e this d options (w\<lparr>globalLock := True\<rparr>))"
      using release_simps(1) [of "unblockDomain_locked e this d options (w\<lparr>globalLock := True\<rparr>)"]
      by (simp add: unblockDomain_free)
    with runs_unblockDomain_locked [OF Suc.prems(1)] show ?thesis
      by (simp add: resolved_unit)
  qed
qed

lemma incrementalUpdate_settles_resolved:
  "\<forall>n. \<not> store_fails e n \<Longrightarrow> incrementalUpdateIPMapping n e this d options w = Some (r, w') \<Longrightarrow> r = Inr ()"
proof (induction n arbitrary: w options r w')
  case 0
  then show ?case by simp
next
  case (Suc n)
  show ?case
  proof (cases "globalLock w")
    case True
    with Suc.prems(2) obtain rw where
      inner: "incrementalUpdateIPMapping n e this d (Some (or_empty options)) (delay e 5000 w) = Some rw"
      and out: "release (adopt e rw) = (r, w')"
      by (auto simp add: Let_def)
    from inner have "incrementalUpdateIPMapping n e this d (Some (or_empty options)) (delay e 5000 w)
        = Some (fst rw, snd rw)" by simp
    from Suc.IH [OF Suc.prems(1) this] out show ?thesis
      using release_simps(1) [of "adopt e rw"] adopt_simps(1) [of e rw] by simp
  next
    case False
    with Suc.prems(2) have "r = fst (incrementalUpdateIPMapping_locked e this d (or_empty options) (w\<lparr>globalLock := True\<rparr>))"
      using release_simps(1) [of "incrementalUpdateIPMapping_locked e this d (or_empty options) (w\<lparr>globalLock := True\<rparr>)"]
      by (simp add: incrementalUpdate_free)
    with runs_incrementalUpdate_locked [OF Suc.prems(1)] show ?thesis
      by (simp add: resolved_unit)
  qed
qed

subsection \<open>The lock after a workflow has settled\<close>

lemma lock_after_delay:
  "globalLock (delay e t w) = fst (during_delay e (now w) (globalLock w, store w))"
  by (simp add: delay_def emit_def split: prod.splits)

lemma handed_on: "\<exists>w'. release (adopt e (r, w)) = (r, w') \<and> \<not> globalLock w'"
  by (simp add: release_def adopt_def split: prod.splits)

lemma released: "release rw = (r, w') \<Longrightarrow> \<not> globalLock w'"
  using release_simps(4) [of rw] by simp

lemma blockDomain_leaves_free:
  "blockDomain n e this d options w = Some (r, w') \<Longrightarrow> \<not> globalLock w'"
proof (cases n)
  case 0
  assume "blockDomain n e this d options w = Some (r, w')"
  with 0 show ?thesis by simp
next
  case (Suc m)
  assume "blockDomain n e this d options w = Some (r, w')"
  with Suc have "\<exists>rw. release rw = (r, w')"
    by (auto simp add: Let_def)
  then show ?thesis by (auto dest: released)
qed

lemma unblockDomain_leaves_free:
  "unblockDomain n e this d options w = Some (r, w') \<Longrightarrow> \<not> globalLock w'"
proof (cases n)
  case 0
  assume "unblockDomain n e this d options w = Some (r, w')"
  with 0 show ?thesis by simp
next
  case (Suc m)
  assume "unblockDomain n e this d options w = Some (r, w')"
  with Suc have "\<exists>rw. release rw = (r, w')"
    by auto
  then show ?thesis by (auto dest: released)
qed

lemma incrementalUpdate_leaves_free:
  "incrementalUpdateIPMapping n e this d options w = Some (r, w') \<Longrightarrow> \<not> globalLock w'"
proof (cases n)
  case 0
  assume "incrementalUpdateIPMapping n e this d options w = Some (r, w')"
  with 0 show ?thesis by simp
next
  case (Suc m)
  assume "incrementalUpdateIPMapping n e this d options w = Some (r, w')"
  with Suc have "\<exists>rw. release rw = (r, w')"
    by (auto simp add: Let_def)
  then show ?thesis by (auto dest: released)
qed

lemma blockDomain_deferred:
  "globalLock w \<Longrightarrow>
   blockDomain n e this d (Some (or_empty options)) (delay e 5000 w) = Some (r, v) \<Longrightarrow>
   blockDomain (Suc n) e this d options w
     = Some (r, (snd (adopt e (r, v)))\<lparr>globalLock := False\<rparr>)"
  by (simp add: Let_def release_def adopt_def split: prod.splits)

lemma unblockDomain_deferred:
  "globalLock w \<Longrightarrow>
   unblockDomain n e this d options (delay e 5000 w) = Some (r, v) \<Longrightarrow>
   unblockDomain (Suc n) e this d options w
     = Some (r, (snd (adopt e (r, v)))\<lparr>globalLock := False\<rparr>)"
  by (simp add: release_def adopt_def split: prod.splits)

lemma incrementalUpdate_deferred:
  "globalLock w \<Longrightarrow>
   incrementalUpdateIPMapping n e this d (Some (or_empty options)) (delay e 5000 w) = Some (r, v) \<Longrightarrow>
   incrementalUpdateIPMapping (Suc n) e this d options w
     = Some (r, (snd (adopt e (r, v)))\<lparr>globalLock := False\<rparr>)"
  by (simp add: Let_def release_def adopt_def split: prod.splits)

lemma free_settles:
  assumes "\<not> globalLock w"
  shows "\<exists>r1 w1. blockDomain (Suc n) e this d options w = Some (r1, w1) \<and> \<not> globalLock w1"
    and "\<exists>r2 w2. unblockDomain (Suc n) e this d options w = Some (r2, w2) \<and> \<not> globalLock w2"
    and "\<exists>r3 w3. incrementalUpdateIPMapping (Suc n) e this d options w = Some (r3, w3) \<and> \<not> globalLock w3"
proof -
  have rel: "\<exists>r1 w1. Some (release rw) = Some (r1, w1) \<and> \<not> globalLock w1"
    for rw :: "(error + unit) \<times> world"
    by (cases rw) (simp add: release_def)
  show "\<exists>r1 w1. blockDomain (Suc n) e this d options w = Some (r1, w1) \<and> \<not> globalLock w1"
    using rel by (simp add: blockDomain_free [OF assms] del: blockDomain.simps)
  show "\<exists>r2 w2. unblockDomain (Suc n) e this d options w = Some (r2, w2) \<and> \<not> globalLock w2"
    using rel by (simp add: unblockDomain_free [OF assms] del: unblockDomain.simps)
  show "\<exists>r3 w3. incrementalUpdateIPMapping (Suc n) e this d options w = Some (r3, w3) \<and> \<not> globalLock w3"
    using rel by (simp add: incrementalUpdate_free [OF assms] del: incrementalUpdateIPMapping.simps)
qed

section \<open>The mapping-key resolver\<close>

text \<open>
  C1, as stated, fails: \<open>getDomainIPMappingKey\<close> never reads \<open>options.externalMapping\<close>.
  With the override string in the options object and nothing assigned to the instance,
  the key is the derived one.
\<close>

theorem options_externalMapping_ignored:
  "getDomainIPMappingKey this_plain ''example.com'' (Some options_external) \<noteq> ''custom:set''"
  by (simp add: getDomainIPMappingKey_def this_plain_def options_external_def or_empty_def
      truthy_string_def truthy_flag_def)

text \<open>
  C1, amended: when the \<open>externalMapping\<close> property of the \<open>DomainBlock\<close> instance holds a
  non-empty string, \<open>getDomainIPMappingKey\<close> returns that string verbatim, for every domain
  and every options object, whatever \<open>options.exactMatch\<close> is.
\<close>

theorem instance_externalMapping_verbatim:
  "this_externalMapping this = Some k \<Longrightarrow> k \<noteq> [] \<Longrightarrow>
   getDomainIPMappingKey this domain options = k"
  by (simp add: getDomainIPMappingKey_def truthy_string_def string_value_def)

theorem instance_externalMapping_verbatim_witness:
  "getDomainIPMappingKey this_external ''example.com'' (Some options_exact) = ''custom:set''
   \<and> getDomainIPMappingKey this_external ''example.com'' None = ''custom:set''"
  using instance_externalMapping_verbatim [of this_external "''custom:set''" "''example.com''" "Some options_exact"]
    instance_externalMapping_verbatim [of this_external "''custom:set''" "''example.com''" None]
  by (simp add: this_external_def)

text \<open>
  C7: with no override in effect (\<open>this.externalMapping\<close> is not truthy), the key is
  \<open>ipmapping:exactdomain:<domain>\<close> when \<open>options.exactMatch\<close> is true and
  \<open>ipmapping:domain:<domain>\<close> otherwise, also when no options are passed; the exact key
  and the wildcard key of one domain differ.
\<close>

theorem derived_mapping_key:
  "\<not> truthy_string (this_externalMapping this) \<Longrightarrow>
     (exactMatch opts = Some True \<longrightarrow>
        getDomainIPMappingKey this domain (Some opts) = ''ipmapping:exactdomain:'' @ domain)
   \<and> (exactMatch opts \<noteq> Some True \<longrightarrow>
        getDomainIPMappingKey this domain (Some opts) = ''ipmapping:domain:'' @ domain)
   \<and> getDomainIPMappingKey this domain None = ''ipmapping:domain:'' @ domain
   \<and> getDomainIPMappingKey this domain (Some (opts\<lparr>exactMatch := Some True\<rparr>))
       \<noteq> getDomainIPMappingKey this domain (Some (opts'\<lparr>exactMatch := Some False\<rparr>))
   \<and> getDomainIPMappingKey this domain (Some (opts\<lparr>exactMatch := Some True\<rparr>))
       \<noteq> getDomainIPMappingKey this domain None"
  by (auto simp add: getDomainIPMappingKey_def or_empty_def empty_options_def truthy_flag_def
      split: option.splits)

theorem derived_mapping_key_witness:
  "getDomainIPMappingKey this_plain ''example.com'' (Some options_exact) = ''ipmapping:exactdomain:example.com''
   \<and> getDomainIPMappingKey this_plain ''example.com'' (Some options_external) = ''ipmapping:domain:example.com''
   \<and> getDomainIPMappingKey this_plain ''example.com'' None = ''ipmapping:domain:example.com''"
  using derived_mapping_key [of this_plain options_exact "''example.com''"]
    derived_mapping_key [of this_plain options_external "''example.com''"]
  by (simp add: this_plain_def truthy_string_def options_exact_def options_external_def)

section \<open>The block applier\<close>

text \<open>
  C5: once the mapping has been read, \<open>applyBlock\<close> issues one block call per address of
  the mapping, in order, and resolves, whichever of these calls the block primitive
  rejects (\<open>bf\<close> is any pattern of rejections); \<open>unapplyBlock\<close> does the same with unblock
  calls.
\<close>

theorem block_applier_attempts_every_address:
  "\<not> store_fails e (now w) \<Longrightarrow>
     applyBlock (e\<lparr>block_fails := bf\<rparr>) this domain options w
       = (Inr (), w\<lparr>trace := trace w @ SMembers (getDomainIPMappingKey this domain options)
             # map (\<lambda>addr. Block addr ''blocked_domain_set'')
                 (store w (getDomainIPMappingKey this domain options))\<rparr>)
   \<and> unapplyBlock (e\<lparr>block_fails := bf\<rparr>) this domain options w
       = (Inr (), w\<lparr>trace := trace w @ SMembers (getDomainIPMappingKey this domain options)
             # map (\<lambda>addr. Unblock addr ''blocked_domain_set'')
                 (store w (getDomainIPMappingKey this domain options))\<rparr>)"
  by (simp add: applyBlock_ok unapplyBlock_ok issue_def block_calls_def unblock_calls_def)

theorem block_applier_attempts_every_address_witness:
  "\<not> store_fails env_ok (now world_two)
   \<and> trace (snd (applyBlock env_block_down this_plain ''example.com'' None world_two))
       = [SMembers ''ipmapping:domain:example.com'',
          Block ''1.2.3.4'' ''blocked_domain_set'', Block ''5.6.7.8'' ''blocked_domain_set'']
   \<and> trace (snd (unapplyBlock env_block_down this_plain ''example.com'' None world_two))
       = [SMembers ''ipmapping:domain:example.com'',
          Unblock ''1.2.3.4'' ''blocked_domain_set'', Unblock ''5.6.7.8'' ''blocked_domain_set'']"
proof -
  have h: "\<not> store_fails env_ok (now world_two)"
    by (simp add: env_ok_def)
  have k: "getDomainIPMappingKey this_plain ''example.com'' None = ''ipmapping:domain:example.com''"
    by (simp add: getDomainIPMappingKey_def this_plain_def or_empty_def empty_options_def
        truthy_string_def truthy_flag_def)
  show ?thesis
    using h block_applier_attempts_every_address [OF h, of "\<lambda>n. True" this_plain "''example.com''" None]
    by (simp add: k env_block_down_def world_two_def)
qed

section \<open>Resolution and merge\<close>

text \<open>
  C10: every run of \<open>syncDomainIPMapping\<close> issues the four calls of \<open>resolveDomain\<close>, the
  reverse-DNS lookups, and then exactly one set-add on the mapping key with the merged
  list; no call before it is a set-add. Nothing tests the list for emptiness: when the
  lookups fail or find nothing, the set-add is issued all the same, with no member.
\<close>

theorem sync_issues_one_sadd:
  "trace (snd (syncDomainIPMapping e this domain options w))
     = trace w @ (resolve_calls e domain (now w) @ lookup_calls (or_empty options) domain)
         @ [SAdd (getDomainIPMappingKey this domain options)
              (candidates e (or_empty options) domain (now w + 4))]
   \<and> (\<forall>k ms. SAdd k ms \<notin> set (resolve_calls e domain (now w) @ lookup_calls (or_empty options) domain))
   \<and> ((rdns_fails e (now w + 4) \<or> rdns_exact e (now w + 4) domain = [])
        \<and> (rdns_fails e (now w + 5) \<or> rdns_pattern e (now w + 5) domain = [])
      \<longrightarrow> last (trace (snd (syncDomainIPMapping e this domain options w)))
            = SAdd (getDomainIPMappingKey this domain options) [])"
proof -
  have tr: "trace (snd (syncDomainIPMapping e this domain options w))
     = trace w @ (resolve_calls e domain (now w) @ lookup_calls (or_empty options) domain)
         @ [SAdd (getDomainIPMappingKey this domain options)
              (candidates e (or_empty options) domain (now w + 4))]"
    by (simp add: syncDomainIPMapping_eq trace_sadd issue_simps)
  have "candidates e (or_empty options) domain (now w + 4) = []"
    if "rdns_fails e (now w + 4) \<or> rdns_exact e (now w + 4) domain = []"
      and "rdns_fails e (now w + 5) \<or> rdns_pattern e (now w + 5) domain = []"
    using that by (auto simp add: candidates_def answer_def add.commute)
  with tr show ?thesis
    using no_sadd_before [of _ _ e domain "now w" "or_empty options"] by auto
qed

theorem sync_issues_one_sadd_witness:
  "trace (snd (syncDomainIPMapping env_quiet this_plain ''example.com'' None world_empty))
     = [Resolve4 ''example.com'', AddReverseDns ''example.com'' [],
        Resolve6 ''example.com'', AddReverseDns ''example.com'' [],
        GetAddressesByDNS ''example.com'', GetAddressesByDNSPattern ''example.com'',
        SAdd ''ipmapping:domain:example.com'' []]
   \<and> last (trace (snd (syncDomainIPMapping env_quiet this_plain ''example.com'' None world_empty)))
       = SAdd ''ipmapping:domain:example.com'' []"
  using sync_issues_one_sadd [of env_quiet this_plain "''example.com''" None world_empty]
  by (simp add: key_plain env_quiet_def env_ok_def world_empty_def now_def resolve_calls_def
      lookup_calls_def candidates_def answer_def or_empty_def empty_options_def truthy_flag_def)

text \<open>
  C6: in exact mode (\<open>options.exactMatch\<close> true) neither merge step issues the pattern
  lookup, and whatever the cache would answer to it (\<open>p\<close>) changes nothing: the set-add of
  \<open>syncDomainIPMapping\<close> carries the answer of the exact lookup alone, and both
  \<open>syncDomainIPMapping\<close> and \<open>incrementalUpdateIPMapping\<close> end in the same result and the
  same world for every \<open>p\<close>.
\<close>

theorem exact_mode_isolation:
  "truthy_flag (exactMatch (or_empty options)) \<Longrightarrow>
     syncDomainIPMapping (e\<lparr>rdns_pattern := p\<rparr>) this domain options w
       = syncDomainIPMapping e this domain options w
   \<and> trace (snd (syncDomainIPMapping e this domain options w))
       = trace w @ resolve_calls e domain (now w)
           @ [GetAddressesByDNS domain,
              SAdd (getDomainIPMappingKey this domain options)
                (answer (rdns_fails e) (rdns_exact e) (now w + 4) domain)]
   \<and> (\<forall>d. GetAddressesByDNSPattern d \<notin> set (resolve_calls e domain (now w)))
   \<and> incrementalUpdateIPMapping n (e\<lparr>rdns_pattern := p\<rparr>) this domain options w
       = incrementalUpdateIPMapping n e this domain options w
   \<and> (\<forall>r w'. incrementalUpdateIPMapping n e this domain options w = Some (r, w') \<longrightarrow>
        (\<exists>evs. trace w' = trace w @ evs \<and> (\<forall>d. GetAddressesByDNSPattern d \<notin> set evs)))"
proof -
  assume exact: "truthy_flag (exactMatch (or_empty options))"
  have a: "syncDomainIPMapping (e\<lparr>rdns_pattern := p\<rparr>) this domain options w
       = syncDomainIPMapping e this domain options w"
    by (simp add: sync_pattern_irrelevant [OF exact])
  have b: "trace (snd (syncDomainIPMapping e this domain options w))
       = trace w @ resolve_calls e domain (now w)
           @ [GetAddressesByDNS domain,
              SAdd (getDomainIPMappingKey this domain options)
                (answer (rdns_fails e) (rdns_exact e) (now w + 4) domain)]"
    using exact
    by (simp add: syncDomainIPMapping_eq trace_sadd issue_simps lookup_calls_def candidates_def)
  have c: "\<forall>d. GetAddressesByDNSPattern d \<notin> set (resolve_calls e domain (now w))"
    by (simp add: resolve_calls_def)
  have d: "incrementalUpdateIPMapping n (e\<lparr>rdns_pattern := p\<rparr>) this domain options w
       = incrementalUpdateIPMapping n e this domain options w"
    by (rule incrementalUpdate_pattern_irrelevant [OF exact])
  have e: "\<exists>evs. trace w' = trace w @ evs \<and> (\<forall>d. GetAddressesByDNSPattern d \<notin> set evs)"
    if "incrementalUpdateIPMapping n e this domain options w = Some (r, w')" for r w'
  proof -
    from incrementalUpdate_calls [OF that] exact obtain evs where
      "trace w' = trace w @ evs" and ok: "list_all (reconciler_call True) evs"
      by auto
    moreover have "GetAddressesByDNSPattern d \<notin> set evs" for d
      using ok by (auto simp add: list_all_iff)
    ultimately show ?thesis by blast
  qed
  from a b c d e show ?thesis by blast
qed

theorem exact_mode_isolation_witness:
  "truthy_flag (exactMatch (or_empty (Some options_exact)))
   \<and> trace (snd (syncDomainIPMapping env_ok this_plain ''example.com'' (Some options_exact) world_empty))
       = [Resolve4 ''example.com'', AddReverseDns ''example.com'' [''1.2.3.4''],
          Resolve6 ''example.com'', AddReverseDns ''example.com'' [],
          GetAddressesByDNS ''example.com'',
          SAdd ''ipmapping:exactdomain:example.com'' [''1.2.3.4'', ''5.6.7.8'']]
   \<and> calls_of
        (incrementalUpdateIPMapping (Suc 0) env_ok this_plain ''example.com'' (Some options_exact) world_exact)
       = Some [Exists ''ipmapping:exactdomain:example.com'',
          Resolve4 ''example.com'', AddReverseDns ''example.com'' [''1.2.3.4''],
          Resolve6 ''example.com'', AddReverseDns ''example.com'' [],
          GetAddressesByDNS ''example.com'',
          SMembers ''ipmapping:exactdomain:example.com'',
          SAdd ''ipmapping:exactdomain:example.com'' [''5.6.7.8''],
          Block ''5.6.7.8'' ''blocked_domain_set'']"
proof -
  have h: "truthy_flag (exactMatch (or_empty (Some options_exact)))"
    by (simp add: or_empty_def options_exact_def truthy_flag_def)
  have run: "calls_of
        (incrementalUpdateIPMapping (Suc 0) env_ok this_plain ''example.com'' (Some options_exact) world_exact)
       = Some [Exists ''ipmapping:exactdomain:example.com'',
          Resolve4 ''example.com'', AddReverseDns ''example.com'' [''1.2.3.4''],
          Resolve6 ''example.com'', AddReverseDns ''example.com'' [],
          GetAddressesByDNS ''example.com'',
          SMembers ''ipmapping:exactdomain:example.com'',
          SAdd ''ipmapping:exactdomain:example.com'' [''5.6.7.8''],
          Block ''5.6.7.8'' ''blocked_domain_set'']"
    by (simp add: run_defs this_plain_def env_ok_def world_exact_def options_exact_def)
  show ?thesis
    using h run exact_mode_isolation [OF h, where e = env_ok and p = "\<lambda>n d. []" and this = this_plain
        and domain = "''example.com''" and w = world_empty and n = "Suc 0"]
    by (simp add: key_plain env_ok_def world_empty_def now_def resolve_calls_def answer_def)
qed

section \<open>The reconciler\<close>

text \<open>
  C4: a reconciliation pass that finds the lock free settles, every address that a key
  of the store held before the pass is still held after it, and none of the calls it
  issues is an unblock call or a key deletion. A second pass that follows (with any
  behaviour \<open>e2\<close> of the collaborators) keeps every address again, so the mapping after
  the later pass contains the mapping before the earlier one. However often a pass is
  deferred before it settles, it issues no unblock call and no key deletion.
\<close>

theorem reconciler_only_adds:
  "\<not> globalLock w \<Longrightarrow>
   (\<exists>r w'. incrementalUpdateIPMapping (Suc n) e this domain options w = Some (r, w')
     \<and> (\<forall>k. set (store w k) \<subseteq> set (store w' k))
     \<and> (\<exists>evs. trace w' = trace w @ evs
           \<and> (\<forall>a s. Unblock a s \<notin> set evs) \<and> (\<forall>k. Del k \<notin> set evs))
     \<and> (\<exists>r2 w2. incrementalUpdateIPMapping (Suc m) e2 this domain options w' = Some (r2, w2)
           \<and> (\<forall>k. set (store w k) \<subseteq> set (store w2 k))))
   \<and> (\<forall>f v r0 v'. incrementalUpdateIPMapping f e this domain options v = Some (r0, v') \<longrightarrow>
        (\<exists>evs. trace v' = trace v @ evs
           \<and> (\<forall>a s. Unblock a s \<notin> set evs) \<and> (\<forall>k. Del k \<notin> set evs)))"
proof -
  assume free: "\<not> globalLock w"
  let ?P = "reconciler_call (truthy_flag (exactMatch (or_empty options)))"
  from incrementalUpdate_pass [OF free, of n e this domain options] obtain r w' evs where
    run: "incrementalUpdateIPMapping (Suc n) e this domain options w = Some (r, w')"
    and free': "\<not> globalLock w'"
    and grow: "\<forall>k. set (store w k) \<subseteq> set (store w' k)"
    and tr: "trace w' = trace w @ evs" and ok: "list_all ?P evs"
    by blast
  from incrementalUpdate_pass [OF free', of m e2 this domain options] obtain r2 w2 where
    run2: "incrementalUpdateIPMapping (Suc m) e2 this domain options w' = Some (r2, w2)"
    and grow2: "\<forall>k. set (store w' k) \<subseteq> set (store w2 k)"
    by blast
  have "Unblock a s \<notin> set evs" for a s
    using ok by (auto simp add: list_all_iff)
  moreover have "Del k \<notin> set evs" for k
    using ok by (auto simp add: list_all_iff)
  moreover have "\<forall>k. set (store w k) \<subseteq> set (store w2 k)"
    using grow grow2 by blast
  ultimately have pass: "\<exists>r w'. incrementalUpdateIPMapping (Suc n) e this domain options w = Some (r, w')
     \<and> (\<forall>k. set (store w k) \<subseteq> set (store w' k))
     \<and> (\<exists>evs. trace w' = trace w @ evs
           \<and> (\<forall>a s. Unblock a s \<notin> set evs) \<and> (\<forall>k. Del k \<notin> set evs))
     \<and> (\<exists>r2 w2. incrementalUpdateIPMapping (Suc m) e2 this domain options w' = Some (r2, w2)
           \<and> (\<forall>k. set (store w k) \<subseteq> set (store w2 k)))"
    using run grow tr run2 by blast
  have any: "\<exists>evs. trace v' = trace v @ evs
           \<and> (\<forall>a s. Unblock a s \<notin> set evs) \<and> (\<forall>k. Del k \<notin> set evs)"
    if "incrementalUpdateIPMapping f e this domain options v = Some (r0, v')" for f v r0 v'
  proof -
    from incrementalUpdate_calls [OF that] obtain evs' where
      tr': "trace v' = trace v @ evs'" and ok': "list_all ?P evs'"
      by blast
    have "Unblock a s \<notin> set evs'" for a s
      using ok' by (auto simp add: list_all_iff)
    moreover have "Del k \<notin> set evs'" for k
      using ok' by (auto simp add: list_all_iff)
    ultimately show ?thesis using tr' by blast
  qed
  from pass any show ?thesis by blast
qed

theorem reconciler_only_adds_witness:
  "\<not> globalLock world_two
   \<and> calls_of (incrementalUpdateIPMapping (Suc 0) env_ok this_plain ''example.com'' None world_two)
       = Some [Exists ''ipmapping:domain:example.com'',
          Resolve4 ''example.com'', AddReverseDns ''example.com'' [''1.2.3.4''],
          Resolve6 ''example.com'', AddReverseDns ''example.com'' [],
          GetAddressesByDNS ''example.com'', GetAddressesByDNSPattern ''example.com'',
          SMembers ''ipmapping:domain:example.com'',
          SAdd ''ipmapping:domain:example.com'' [''9.9.9.9''],
          Block ''9.9.9.9'' ''blocked_domain_set'']
   \<and> members_of ''ipmapping:domain:example.com''
        (incrementalUpdateIPMapping (Suc 0) env_ok this_plain ''example.com'' None world_two)
       = Some [''1.2.3.4'', ''5.6.7.8'', ''9.9.9.9'']"
proof -
  have h: "\<not> globalLock world_two"
    by (simp add: world_two_def)
  show ?thesis
    using h reconciler_only_adds [OF h, where n = 0 and e = env_ok and this = this_plain
        and domain = "''example.com''" and options = None and m = 0 and ?e2.0 = env_ok]
    by (simp add: run_defs this_plain_def env_ok_def world_two_def)
qed

section \<open>unblockDomain\<close>

text \<open>
  C8: with no override on the instance, the lock free and a mapping of two addresses,
  \<open>unblockDomain\<close> settles and its calls are an initial part of: read the mapping,
  unblock the first address, unblock the second, delete the mapping key, remove the DNS
  filter entry, emit the reload event. When the two store calls succeed it issues all of
  them and resolves, whatever the unblock calls and the filter answer, and the key is gone.
\<close>

theorem unblock_order:
  "\<not> truthy_string (this_externalMapping this) \<Longrightarrow> \<not> globalLock w \<Longrightarrow>
   key = getDomainIPMappingKey this domain options \<Longrightarrow> store w key = [a1, a2] \<Longrightarrow>
     (\<exists>r w' k. unblockDomain (Suc n) e this domain options w = Some (r, w')
         \<and> trace w' = trace w @ take k
              [SMembers key, Unblock a1 ''blocked_domain_set'', Unblock a2 ''blocked_domain_set'',
               Del key, RemovePolicyFilterEntry domain, EmitReloadDNSRule])
   \<and> (\<not> store_fails e (now w) \<and> \<not> store_fails e (now w + 3) \<longrightarrow>
        unblockDomain (Suc n) e this domain options w
          = Some (Inr (), w\<lparr>trace := trace w @
              [SMembers key, Unblock a1 ''blocked_domain_set'', Unblock a2 ''blocked_domain_set'',
               Del key, RemovePolicyFilterEntry domain, EmitReloadDNSRule],
              store := (store w)(key := [])\<rparr>))"
proof -
  assume plain: "\<not> truthy_string (this_externalMapping this)" and free: "\<not> globalLock w"
    and key: "key = getDomainIPMappingKey this domain options" and two: "store w key = [a1, a2]"
  let ?w0 = "w\<lparr>globalLock := True\<rparr>"
  let ?full = "[SMembers key, Unblock a1 ''blocked_domain_set'', Unblock a2 ''blocked_domain_set'',
               Del key, RemovePolicyFilterEntry domain, EmitReloadDNSRule]"
  have run: "unblockDomain (Suc n) e this domain options w
      = Some (release (unblockDomain_locked e this domain options ?w0))"
    using free by (rule unblockDomain_free)
  have st: "store ?w0 (getDomainIPMappingKey this domain options) = [a1, a2]"
    using key two by simp
  have ok: "unblockDomain (Suc n) e this domain options w
          = Some (Inr (), w\<lparr>trace := trace w @ ?full, store := (store w)(key := [])\<rparr>)"
    if a: "\<not> store_fails e (now w)" and b: "\<not> store_fails e (now w + 3)"
  proof -
    from a have a': "\<not> store_fails e (now ?w0)" by (simp add: now_lock)
    from b st have b': "\<not> store_fails e (Suc (now ?w0 + length (store ?w0 (getDomainIPMappingKey this domain options))))"
      by (simp add: now_lock eval_nat_numeral)
    show ?thesis
      using free st key
      by (simp add: run unblockDomain_locked_ok [OF a' plain b'] release_def issue_def
          unblock_calls_def)
  qed
  have "\<exists>r w' k. unblockDomain (Suc n) e this domain options w = Some (r, w')
         \<and> trace w' = trace w @ take k ?full"
  proof (cases "store_fails e (now w)")
    case True
    then have a': "store_fails e (now ?w0)" by (simp add: now_lock)
    have "trace (snd (release (unblockDomain_locked e this domain options ?w0)))
        = trace w @ take 1 ?full"
      using key by (simp add: unblockDomain_locked_read_fail [OF a'] release_def issue_def)
    with run show ?thesis by (metis prod.collapse)
  next
    case False
    then have a': "\<not> store_fails e (now ?w0)" by (simp add: now_lock)
    show ?thesis
    proof (cases "store_fails e (now w + 3)")
      case True
      with st have b': "store_fails e (Suc (now ?w0 + length (store ?w0 (getDomainIPMappingKey this domain options))))"
        by (simp add: now_lock eval_nat_numeral)
      have "trace (snd (release (unblockDomain_locked e this domain options ?w0)))
          = trace w @ take 4 ?full"
        using key st
        by (simp add: unblockDomain_locked_del_fail [OF a' plain b'] release_def issue_def
            unblock_calls_def)
      with run show ?thesis by (metis prod.collapse)
    next
      case b: False
      have "trace (w\<lparr>trace := trace w @ ?full, store := (store w)(key := [])\<rparr>) = trace w @ take 6 ?full"
        by simp
      with ok [OF False b] show ?thesis by blast
    qed
  qed
  with ok show ?thesis by blast
qed

theorem unblock_order_witness:
  "\<not> truthy_string (this_externalMapping this_plain) \<and> \<not> globalLock world_two
   \<and> store world_two ''ipmapping:domain:example.com'' = [''1.2.3.4'', ''5.6.7.8'']
   \<and> calls_of (unblockDomain (Suc 0) env_ok this_plain ''example.com'' None world_two)
       = Some [SMembers ''ipmapping:domain:example.com'',
          Unblock ''1.2.3.4'' ''blocked_domain_set'', Unblock ''5.6.7.8'' ''blocked_domain_set'',
          Del ''ipmapping:domain:example.com'',
          RemovePolicyFilterEntry ''example.com'', EmitReloadDNSRule]
   \<and> members_of ''ipmapping:domain:example.com''
        (unblockDomain (Suc 0) env_ok this_plain ''example.com'' None world_two) = Some []"
proof -
  have plain: "\<not> truthy_string (this_externalMapping this_plain)"
    by (simp add: this_plain_def truthy_string_def)
  have free: "\<not> globalLock world_two"
    by (simp add: world_two_def)
  have key: "''ipmapping:domain:example.com'' = getDomainIPMappingKey this_plain ''example.com'' None"
    by (simp add: key_plain)
  have two: "store world_two ''ipmapping:domain:example.com'' = [''1.2.3.4'', ''5.6.7.8'']"
    by (simp add: world_two_def)
  have up: "\<not> store_fails env_ok (now world_two) \<and> \<not> store_fails env_ok (now world_two + 3)"
    by (simp add: env_ok_def)
  from unblock_order [OF plain free key two, of 0 env_ok] up
  have "unblockDomain (Suc 0) env_ok this_plain ''example.com'' None world_two
      = Some (Inr (), world_two\<lparr>trace := trace world_two @
              [SMembers ''ipmapping:domain:example.com'',
               Unblock ''1.2.3.4'' ''blocked_domain_set'', Unblock ''5.6.7.8'' ''blocked_domain_set'',
               Del ''ipmapping:domain:example.com'',
               RemovePolicyFilterEntry ''example.com'', EmitReloadDNSRule],
              store := (store world_two)(''ipmapping:domain:example.com'' := [])\<rparr>)"
    by blast
  then show ?thesis
    using plain free two by (simp add: calls_of_def members_of_def world_two_def)
qed

text \<open>
  C3, as stated, fails: the test before the deletion reads \<open>this.externalMapping\<close>, not the
  options. With the override in the options only, \<open>unblockDomain\<close> reads, unblocks and
  deletes the derived key; the address under the override key gets no unblock call.
\<close>

theorem options_override_mapping_deleted:
  "calls_of (unblockDomain (Suc 0) env_ok this_plain ''example.com'' (Some options_external) world_custom)
     = Some [SMembers ''ipmapping:domain:example.com'',
        Unblock ''1.2.3.4'' ''blocked_domain_set'',
        Del ''ipmapping:domain:example.com'',
        RemovePolicyFilterEntry ''example.com'', EmitReloadDNSRule]
   \<and> store world_custom ''custom:set'' = [''9.9.9.9'']
   \<and> store world_custom ''ipmapping:domain:example.com'' = [''1.2.3.4'']
   \<and> members_of ''ipmapping:domain:example.com''
        (unblockDomain (Suc 0) env_ok this_plain ''example.com'' (Some options_external) world_custom)
       = Some []"
  by (simp add: run_defs this_plain_def env_ok_def world_custom_def options_external_def)

text \<open>
  C3, amended: when the \<open>externalMapping\<close> property of the instance holds a non-empty
  string and the lock is free, \<open>unblockDomain\<close> settles, issues no key deletion and leaves
  every key of the store with the members it had; when the mapping can be read it issues
  one unblock call per member of the override key and then removes the filter entry.
\<close>

theorem instance_override_keeps_mapping:
  "this_externalMapping this = Some k \<Longrightarrow> k \<noteq> [] \<Longrightarrow> \<not> globalLock w \<Longrightarrow>
   \<exists>r w'. unblockDomain (Suc n) e this domain options w = Some (r, w')
     \<and> store w' = store w
     \<and> (\<exists>evs. trace w' = trace w @ evs \<and> (\<forall>key. Del key \<notin> set evs))
     \<and> (\<not> store_fails e (now w) \<longrightarrow>
          r = Inr ()
          \<and> trace w' = trace w @ SMembers k
               # map (\<lambda>addr. Unblock addr ''blocked_domain_set'') (store w k)
               @ [RemovePolicyFilterEntry domain, EmitReloadDNSRule])"
proof -
  assume ext: "this_externalMapping this = Some k" and ne: "k \<noteq> []" and free: "\<not> globalLock w"
  let ?w0 = "w\<lparr>globalLock := True\<rparr>"
  have truthy: "truthy_string (this_externalMapping this)"
    using ext ne by (simp add: truthy_string_def)
  have key: "getDomainIPMappingKey this domain options = k"
    using ext ne by (simp add: getDomainIPMappingKey_def truthy_string_def string_value_def)
  have run: "unblockDomain (Suc n) e this domain options w
      = Some (release (unblockDomain_locked e this domain options ?w0))"
    using free by (rule unblockDomain_free)
  show ?thesis
  proof (cases "store_fails e (now w)")
    case True
    then have a': "store_fails e (now ?w0)" by (simp add: now_lock)
    show ?thesis
      using True
      by (simp add: run unblockDomain_locked_read_fail [OF a'] release_def issue_def key
          del: unblockDomain.simps)
  next
    case False
    then have a': "\<not> store_fails e (now ?w0)" by (simp add: now_lock)
    show ?thesis
      using False
      by (auto simp add: run unblockDomain_locked_external [OF a' truthy] release_def issue_def
          key unblock_calls_def simp del: unblockDomain.simps)
  qed
qed

theorem instance_override_keeps_mapping_witness:
  "this_externalMapping this_external = Some ''custom:set'' \<and> \<not> globalLock world_custom
   \<and> calls_of (unblockDomain (Suc 0) env_ok this_external ''example.com'' None world_custom)
       = Some [SMembers ''custom:set'', Unblock ''9.9.9.9'' ''blocked_domain_set'',
          RemovePolicyFilterEntry ''example.com'', EmitReloadDNSRule]
   \<and> members_of ''custom:set''
        (unblockDomain (Suc 0) env_ok this_external ''example.com'' None world_custom)
       = Some [''9.9.9.9'']"
proof -
  have ext: "this_externalMapping this_external = Some ''custom:set''"
    by (simp add: this_external_def)
  have ne: "''custom:set'' \<noteq> []" by simp
  have free: "\<not> globalLock world_custom"
    by (simp add: world_custom_def)
  show ?thesis
    using ext free instance_override_keeps_mapping [OF ext ne free, of 0 env_ok "''example.com''" None]
    by (simp add: run_defs this_external_def env_ok_def world_custom_def)
qed

section \<open>Failures of the collaborators\<close>

text \<open>
  C2, as stated, fails: no store call carries a \<open>catch\<close>. With the mapping store down,
  \<open>blockDomain\<close> ends rejected at the set-add and never reaches \<open>applyBlock\<close>, although
  the mapping holds two addresses.
\<close>

theorem store_failure_aborts_blockDomain:
  "result_of (blockDomain (Suc 0) env_store_down this_plain ''example.com'' None world_two)
     = Some (Inl StoreError)
   \<and> calls_of (blockDomain (Suc 0) env_store_down this_plain ''example.com'' None world_two)
     = Some [AddPolicyFilterEntry ''example.com'', EmitReloadDNSRule,
        Resolve4 ''example.com'', AddReverseDns ''example.com'' [''1.2.3.4''],
        Resolve6 ''example.com'', AddReverseDns ''example.com'' [],
        GetAddressesByDNS ''example.com'', GetAddressesByDNSPattern ''example.com'',
        SAdd ''ipmapping:domain:example.com'' [''1.2.3.4'', ''5.6.7.8'', ''9.9.9.9'']]"
  by (simp add: run_defs this_plain_def env_store_down_def env_ok_def world_two_def)

text \<open>
  C2, amended: failures of DNS resolution, of the reverse-DNS lookups, of the DNS filter
  and of the block primitive are caught and never abort a workflow. As long as the calls
  to the mapping store succeed, every settled \<open>blockDomain\<close>, \<open>unblockDomain\<close> or
  \<open>incrementalUpdateIPMapping\<close> is resolved, not rejected, however often it was deferred;
  one that finds the lock free does settle, and so does one that finds the lock taken
  and released while it sleeps.
\<close>

theorem caught_failures_never_abort:
  "\<forall>n. \<not> store_fails e n \<Longrightarrow>
     (blockDomain n e this domain options w = Some (r, w') \<longrightarrow> r = Inr ())
   \<and> (unblockDomain n e this domain options w = Some (r, w') \<longrightarrow> r = Inr ())
   \<and> (incrementalUpdateIPMapping n e this domain options w = Some (r, w') \<longrightarrow> r = Inr ())
   \<and> (\<not> globalLock w \<longrightarrow>
        (\<exists>w1. blockDomain (Suc n) e this domain options w = Some (Inr (), w1))
      \<and> (\<exists>w2. unblockDomain (Suc n) e this domain options w = Some (Inr (), w2))
      \<and> (\<exists>w3. incrementalUpdateIPMapping (Suc n) e this domain options w = Some (Inr (), w3)))
   \<and> (globalLock w \<and> \<not> fst (during_delay e (now w) (globalLock w, store w)) \<longrightarrow>
        (\<exists>w1. blockDomain (Suc (Suc n)) e this domain options w = Some (Inr (), w1))
      \<and> (\<exists>w2. unblockDomain (Suc (Suc n)) e this domain options w = Some (Inr (), w2))
      \<and> (\<exists>w3. incrementalUpdateIPMapping (Suc (Suc n)) e this domain options w = Some (Inr (), w3)))"
proof -
  assume up: "\<forall>n. \<not> store_fails e n"
  have settle: "\<exists>w1. release rw = (Inr (), w1)" if "\<not> isl (fst rw)" for rw :: "(error + unit) \<times> world"
    using that by (cases rw) (simp add: release_def resolved_unit)
  have a: "\<exists>w1. blockDomain (Suc n) e this domain options w = Some (Inr (), w1)"
    if "\<not> globalLock w" for n options w
    using settle [OF runs_blockDomain_locked [OF up]]
    by (simp add: blockDomain_free [OF that] del: blockDomain.simps)
  have b: "\<exists>w2. unblockDomain (Suc n) e this domain options w = Some (Inr (), w2)"
    if "\<not> globalLock w" for n options w
    using settle [OF runs_unblockDomain_locked [OF up]]
    by (simp add: unblockDomain_free [OF that] del: unblockDomain.simps)
  have c: "\<exists>w3. incrementalUpdateIPMapping (Suc n) e this domain options w = Some (Inr (), w3)"
    if "\<not> globalLock w" for n options w
    using settle [OF runs_incrementalUpdate_locked [OF up]]
    by (simp add: incrementalUpdate_free [OF that] del: incrementalUpdateIPMapping.simps)
  have d: "blockDomain n e this domain options w = Some (r, w') \<longrightarrow> r = Inr ()"
    using blockDomain_settles_resolved [OF up] by blast
  have e: "unblockDomain n e this domain options w = Some (r, w') \<longrightarrow> r = Inr ()"
    using unblockDomain_settles_resolved [OF up] by blast
  have f: "incrementalUpdateIPMapping n e this domain options w = Some (r, w') \<longrightarrow> r = Inr ()"
    using incrementalUpdate_settles_resolved [OF up] by blast
  have g: "(\<exists>w1. blockDomain (Suc (Suc n)) e this domain options w = Some (Inr (), w1))
      \<and> (\<exists>w2. unblockDomain (Suc (Suc n)) e this domain options w = Some (Inr (), w2))
      \<and> (\<exists>w3. incrementalUpdateIPMapping (Suc (Suc n)) e this domain options w = Some (Inr (), w3))"
    if held: "globalLock w" and freed: "\<not> fst (during_delay e (now w) (globalLock w, store w))"
  proof -
    from freed have free: "\<not> globalLock (delay e 5000 w)"
      by (simp add: lock_after_delay)
    from a [OF free, of n "Some (or_empty options)"] obtain w1 where
      "blockDomain (Suc n) e this domain (Some (or_empty options)) (delay e 5000 w) = Some (Inr (), w1)"
      by blast
    moreover obtain v1 where "release (adopt e (Inr (), w1)) = (Inr (), v1)"
      using handed_on [of e "Inr ()" w1] by blast
    ultimately have s1: "blockDomain (Suc (Suc n)) e this domain options w = Some (Inr (), v1)"
      using held blockDomain.simps(2) [of "Suc n" e this domain options w]
      by (simp add: Let_def del: blockDomain.simps)
    from b [OF free, of n options] obtain w2 where
      "unblockDomain (Suc n) e this domain options (delay e 5000 w) = Some (Inr (), w2)"
      by blast
    moreover obtain v2 where "release (adopt e (Inr (), w2)) = (Inr (), v2)"
      using handed_on [of e "Inr ()" w2] by blast
    ultimately have s2: "unblockDomain (Suc (Suc n)) e this domain options w = Some (Inr (), v2)"
      using held unblockDomain.simps(2) [of "Suc n" e this domain options w]
      by (simp del: unblockDomain.simps)
    from c [OF free, of n "Some (or_empty options)"] obtain w3 where
      "incrementalUpdateIPMapping (Suc n) e this domain (Some (or_empty options)) (delay e 5000 w)
        = Some (Inr (), w3)"
      by blast
    moreover obtain v3 where "release (adopt e (Inr (), w3)) = (Inr (), v3)"
      using handed_on [of e "Inr ()" w3] by blast
    ultimately have s3: "incrementalUpdateIPMapping (Suc (Suc n)) e this domain options w = Some (Inr (), v3)"
      using held incrementalUpdateIPMapping.simps(2) [of "Suc n" e this domain options w]
      by (simp add: Let_def del: incrementalUpdateIPMapping.simps)
    from s1 s2 s3 show ?thesis by blast
  qed
  have h: "\<not> globalLock w \<longrightarrow>
        (\<exists>w1. blockDomain (Suc n) e this domain options w = Some (Inr (), w1))
      \<and> (\<exists>w2. unblockDomain (Suc n) e this domain options w = Some (Inr (), w2))
      \<and> (\<exists>w3. incrementalUpdateIPMapping (Suc n) e this domain options w = Some (Inr (), w3))"
    using a [of w n options] b [of w n options] c [of w n options] by blast
  have i: "globalLock w \<and> \<not> fst (during_delay e (now w) (globalLock w, store w)) \<longrightarrow>
        (\<exists>w1. blockDomain (Suc (Suc n)) e this domain options w = Some (Inr (), w1))
      \<and> (\<exists>w2. unblockDomain (Suc (Suc n)) e this domain options w = Some (Inr (), w2))
      \<and> (\<exists>w3. incrementalUpdateIPMapping (Suc (Suc n)) e this domain options w = Some (Inr (), w3))"
    using g by blast
  from d e f h i show ?thesis by (intro conjI)
qed

theorem caught_failures_never_abort_witness:
  "(\<forall>n. \<not> store_fails env_others_down n) \<and> \<not> globalLock world_two
   \<and> result_of (blockDomain (Suc 0) env_others_down this_plain ''example.com'' None world_two)
       = Some (Inr ())
   \<and> calls_of (blockDomain (Suc 0) env_others_down this_plain ''example.com'' None world_two)
       = Some [AddPolicyFilterEntry ''example.com'', EmitReloadDNSRule,
          Resolve4 ''example.com'', AddReverseDns ''example.com'' [],
          Resolve6 ''example.com'', AddReverseDns ''example.com'' [],
          GetAddressesByDNS ''example.com'', GetAddressesByDNSPattern ''example.com'',
          SAdd ''ipmapping:domain:example.com'' [''1.2.3.4'', ''5.6.7.8''],
          SMembers ''ipmapping:domain:example.com'',
          Block ''1.2.3.4'' ''blocked_domain_set'', Block ''5.6.7.8'' ''blocked_domain_set'',
          SetTimeoutIncrementalUpdate ''example.com'' empty_options 60000]
   \<and> result_of (unblockDomain (Suc 0) env_others_down this_plain ''example.com'' None world_two)
       = Some (Inr ())
   \<and> result_of (incrementalUpdateIPMapping (Suc 0) env_others_down this_plain ''example.com'' None world_two)
       = Some (Inr ())"
proof -
  have up: "\<forall>n. \<not> store_fails env_others_down n"
    by (simp add: env_others_down_def env_ok_def)
  have free: "\<not> globalLock world_two"
    by (simp add: world_two_def)
  have calls: "calls_of (blockDomain (Suc 0) env_others_down this_plain ''example.com'' None world_two)
       = Some [AddPolicyFilterEntry ''example.com'', EmitReloadDNSRule,
          Resolve4 ''example.com'', AddReverseDns ''example.com'' [],
          Resolve6 ''example.com'', AddReverseDns ''example.com'' [],
          GetAddressesByDNS ''example.com'', GetAddressesByDNSPattern ''example.com'',
          SAdd ''ipmapping:domain:example.com'' [''1.2.3.4'', ''5.6.7.8''],
          SMembers ''ipmapping:domain:example.com'',
          Block ''1.2.3.4'' ''blocked_domain_set'', Block ''5.6.7.8'' ''blocked_domain_set'',
          SetTimeoutIncrementalUpdate ''example.com'' empty_options 60000]"
    by (simp add: run_defs this_plain_def env_others_down_def env_ok_def world_two_def)
  from caught_failures_never_abort [OF up, where n = 0 and this = this_plain
      and domain = "''example.com''" and options = None and w = world_two and r = "Inr ()"
      and w' = world_two] free
  have "(\<exists>w1. blockDomain (Suc 0) env_others_down this_plain ''example.com'' None world_two = Some (Inr (), w1))
      \<and> (\<exists>w2. unblockDomain (Suc 0) env_others_down this_plain ''example.com'' None world_two = Some (Inr (), w2))
      \<and> (\<exists>w3. incrementalUpdateIPMapping (Suc 0) env_others_down this_plain ''example.com'' None world_two = Some (Inr (), w3))"
    by blast
  then have "result_of (blockDomain (Suc 0) env_others_down this_plain ''example.com'' None world_two) = Some (Inr ())
      \<and> result_of (unblockDomain (Suc 0) env_others_down this_plain ''example.com'' None world_two) = Some (Inr ())
      \<and> result_of (incrementalUpdateIPMapping (Suc 0) env_others_down this_plain ''example.com'' None world_two) = Some (Inr ())"
    by (auto simp add: result_of_def)
  with up free calls show ?thesis by blast
qed

section \<open>The lock\<close>

text \<open>
  C9: whenever \<open>blockDomain\<close>, \<open>unblockDomain\<close> or \<open>incrementalUpdateIPMapping\<close> settles,
  the lock flag is false, and each of them does settle when it finds the lock free. A
  call that finds the lock taken only sleeps and calls itself again; once the retry has
  settled, the caller settles with the retry's outcome, in the world that the other
  tasks have left since, with the lock flag assigned false by the caller's own handler:
  also when another task has taken the lock in between. When the lock is released while
  the caller sleeps, the retry does settle, and so does the caller, with the lock flag
  false.
\<close>

theorem lock_released_when_settled:
  "(blockDomain n e this domain options w = Some (r, w') \<longrightarrow> \<not> globalLock w')
   \<and> (unblockDomain n e this domain options w = Some (r, w') \<longrightarrow> \<not> globalLock w')
   \<and> (incrementalUpdateIPMapping n e this domain options w = Some (r, w') \<longrightarrow> \<not> globalLock w')
   \<and> (\<not> globalLock w \<longrightarrow>
        (\<exists>r1 w1. blockDomain (Suc n) e this domain options w = Some (r1, w1) \<and> \<not> globalLock w1)
      \<and> (\<exists>r2 w2. unblockDomain (Suc n) e this domain options w = Some (r2, w2) \<and> \<not> globalLock w2)
      \<and> (\<exists>r3 w3. incrementalUpdateIPMapping (Suc n) e this domain options w = Some (r3, w3)
            \<and> \<not> globalLock w3))
   \<and> (globalLock w \<longrightarrow>
        (\<forall>r1 v1. blockDomain n e this domain (Some (or_empty options)) (delay e 5000 w) = Some (r1, v1) \<longrightarrow>
           blockDomain (Suc n) e this domain options w
             = Some (r1, (snd (adopt e (r1, v1)))\<lparr>globalLock := False\<rparr>))
      \<and> (\<forall>r2 v2. unblockDomain n e this domain options (delay e 5000 w) = Some (r2, v2) \<longrightarrow>
           unblockDomain (Suc n) e this domain options w
             = Some (r2, (snd (adopt e (r2, v2)))\<lparr>globalLock := False\<rparr>))
      \<and> (\<forall>r3 v3. incrementalUpdateIPMapping n e this domain (Some (or_empty options)) (delay e 5000 w)
             = Some (r3, v3) \<longrightarrow>
           incrementalUpdateIPMapping (Suc n) e this domain options w
             = Some (r3, (snd (adopt e (r3, v3)))\<lparr>globalLock := False\<rparr>)))
   \<and> (globalLock w \<and> \<not> fst (during_delay e (now w) (globalLock w, store w)) \<longrightarrow>
        (\<exists>r1 w1. blockDomain (Suc (Suc n)) e this domain options w = Some (r1, w1) \<and> \<not> globalLock w1)
      \<and> (\<exists>r2 w2. unblockDomain (Suc (Suc n)) e this domain options w = Some (r2, w2) \<and> \<not> globalLock w2)
      \<and> (\<exists>r3 w3. incrementalUpdateIPMapping (Suc (Suc n)) e this domain options w = Some (r3, w3)
            \<and> \<not> globalLock w3))"
proof -
  have a: "blockDomain n e this domain options w = Some (r, w') \<longrightarrow> \<not> globalLock w'"
    using blockDomain_leaves_free [of n e this domain options w r w'] by blast
  have b: "unblockDomain n e this domain options w = Some (r, w') \<longrightarrow> \<not> globalLock w'"
    using unblockDomain_leaves_free [of n e this domain options w r w'] by blast
  have c: "incrementalUpdateIPMapping n e this domain options w = Some (r, w') \<longrightarrow> \<not> globalLock w'"
    using incrementalUpdate_leaves_free [of n e this domain options w r w'] by blast
  have d: "\<not> globalLock w \<longrightarrow>
        (\<exists>r1 w1. blockDomain (Suc n) e this domain options w = Some (r1, w1) \<and> \<not> globalLock w1)
      \<and> (\<exists>r2 w2. unblockDomain (Suc n) e this domain options w = Some (r2, w2) \<and> \<not> globalLock w2)
      \<and> (\<exists>r3 w3. incrementalUpdateIPMapping (Suc n) e this domain options w = Some (r3, w3)
            \<and> \<not> globalLock w3)"
    using free_settles [of w n e this domain options] by blast
  have f: "globalLock w \<longrightarrow>
        (\<forall>r1 v1. blockDomain n e this domain (Some (or_empty options)) (delay e 5000 w) = Some (r1, v1) \<longrightarrow>
           blockDomain (Suc n) e this domain options w
             = Some (r1, (snd (adopt e (r1, v1)))\<lparr>globalLock := False\<rparr>))
      \<and> (\<forall>r2 v2. unblockDomain n e this domain options (delay e 5000 w) = Some (r2, v2) \<longrightarrow>
           unblockDomain (Suc n) e this domain options w
             = Some (r2, (snd (adopt e (r2, v2)))\<lparr>globalLock := False\<rparr>))
      \<and> (\<forall>r3 v3. incrementalUpdateIPMapping n e this domain (Some (or_empty options)) (delay e 5000 w)
             = Some (r3, v3) \<longrightarrow>
           incrementalUpdateIPMapping (Suc n) e this domain options w
             = Some (r3, (snd (adopt e (r3, v3)))\<lparr>globalLock := False\<rparr>))"
    using blockDomain_deferred [of w n e this domain options]
      unblockDomain_deferred [of w n e this domain options]
      incrementalUpdate_deferred [of w n e this domain options]
    by blast
  have g: "(\<exists>r1 w1. blockDomain (Suc (Suc n)) e this domain options w = Some (r1, w1) \<and> \<not> globalLock w1)
      \<and> (\<exists>r2 w2. unblockDomain (Suc (Suc n)) e this domain options w = Some (r2, w2) \<and> \<not> globalLock w2)
      \<and> (\<exists>r3 w3. incrementalUpdateIPMapping (Suc (Suc n)) e this domain options w = Some (r3, w3)
            \<and> \<not> globalLock w3)"
    if held: "globalLock w" and freed: "\<not> fst (during_delay e (now w) (globalLock w, store w))"
  proof -
    from freed have free: "\<not> globalLock (delay e 5000 w)"
      by (simp add: lock_after_delay)
    from free_settles(1) [OF free, of n e this domain "Some (or_empty options)"] obtain r1 v1 where
      "blockDomain (Suc n) e this domain (Some (or_empty options)) (delay e 5000 w) = Some (r1, v1)"
      by blast
    from blockDomain_deferred [OF held this]
    have "blockDomain (Suc (Suc n)) e this domain options w
        = Some (r1, (snd (adopt e (r1, v1)))\<lparr>globalLock := False\<rparr>)" .
    moreover have "\<not> globalLock ((snd (adopt e (r1, v1)))\<lparr>globalLock := False\<rparr>)"
      by simp
    ultimately
    have s1: "\<exists>r1 w1. blockDomain (Suc (Suc n)) e this domain options w = Some (r1, w1) \<and> \<not> globalLock w1"
      by blast
    from free_settles(2) [OF free, of n e this domain options] obtain r2 v2 where
      "unblockDomain (Suc n) e this domain options (delay e 5000 w) = Some (r2, v2)"
      by blast
    from unblockDomain_deferred [OF held this]
    have "unblockDomain (Suc (Suc n)) e this domain options w
        = Some (r2, (snd (adopt e (r2, v2)))\<lparr>globalLock := False\<rparr>)" .
    moreover have "\<not> globalLock ((snd (adopt e (r2, v2)))\<lparr>globalLock := False\<rparr>)"
      by simp
    ultimately
    have s2: "\<exists>r2 w2. unblockDomain (Suc (Suc n)) e this domain options w = Some (r2, w2) \<and> \<not> globalLock w2"
      by blast
    from free_settles(3) [OF free, of n e this domain "Some (or_empty options)"] obtain r3 v3 where
      "incrementalUpdateIPMapping (Suc n) e this domain (Some (or_empty options)) (delay e 5000 w)
        = Some (r3, v3)"
      by blast
    from incrementalUpdate_deferred [OF held this]
    have "incrementalUpdateIPMapping (Suc (Suc n)) e this domain options w
        = Some (r3, (snd (adopt e (r3, v3)))\<lparr>globalLock := False\<rparr>)" .
    moreover have "\<not> globalLock ((snd (adopt e (r3, v3)))\<lparr>globalLock := False\<rparr>)"
      by simp
    ultimately
    have s3: "\<exists>r3 w3. incrementalUpdateIPMapping (Suc (Suc n)) e this domain options w = Some (r3, w3)
        \<and> \<not> globalLock w3"
      by blast
    from s1 s2 s3 show ?thesis by (intro conjI)
  qed
  then have h: "globalLock w \<and> \<not> fst (during_delay e (now w) (globalLock w, store w)) \<longrightarrow>
        (\<exists>r1 w1. blockDomain (Suc (Suc n)) e this domain options w = Some (r1, w1) \<and> \<not> globalLock w1)
      \<and> (\<exists>r2 w2. unblockDomain (Suc (Suc n)) e this domain options w = Some (r2, w2) \<and> \<not> globalLock w2)
      \<and> (\<exists>r3 w3. incrementalUpdateIPMapping (Suc (Suc n)) e this domain options w = Some (r3, w3)
            \<and> \<not> globalLock w3)"
    by blast
  from a b c d f h show ?thesis by (intro conjI)
qed

theorem lock_released_when_settled_witness:
  "globalLock world_locked
   \<and> \<not> fst (during_delay env_contended (now world_locked) (globalLock world_locked, store world_locked))
   \<and> lock_of (map_option (adopt env_contended)
        (blockDomain (Suc 0) env_contended this_plain ''example.com'' (Some empty_options)
           (delay env_contended 5000 world_locked))) = Some True
   \<and> lock_of (blockDomain (Suc (Suc 0)) env_contended this_plain ''example.com'' None world_locked)
       = Some False
   \<and> lock_of (map_option (adopt env_contended)
        (unblockDomain (Suc 0) env_contended this_plain ''example.com'' None
           (delay env_contended 5000 world_locked))) = Some True
   \<and> lock_of (unblockDomain (Suc (Suc 0)) env_contended this_plain ''example.com'' None world_locked)
       = Some False
   \<and> calls_of (unblockDomain (Suc (Suc 0)) env_contended this_plain ''example.com'' None world_locked)
       = Some [Delay 5000, SMembers ''ipmapping:domain:example.com'',
          Unblock ''1.2.3.4'' ''blocked_domain_set'', Unblock ''5.6.7.8'' ''blocked_domain_set'',
          Del ''ipmapping:domain:example.com'',
          RemovePolicyFilterEntry ''example.com'', EmitReloadDNSRule]
   \<and> lock_of (map_option (adopt env_contended)
        (incrementalUpdateIPMapping (Suc 0) env_contended this_plain ''example.com'' (Some empty_options)
           (delay env_contended 5000 world_locked))) = Some True
   \<and> lock_of (incrementalUpdateIPMapping (Suc (Suc 0)) env_contended this_plain ''example.com'' None
        world_locked) = Some False
   \<and> lock_of (incrementalUpdateIPMapping (Suc 0) env_contended this_plain ''example.com'' None world_empty)
       = Some False"
proof -
  have held: "globalLock world_locked"
    by (simp add: world_locked_def)
  have freed: "\<not> fst (during_delay env_contended (now world_locked)
      (globalLock world_locked, store world_locked))"
    by (simp add: env_contended_def env_ok_def)
  have free: "\<not> globalLock world_empty"
    by (simp add: world_empty_def)
  have taken:
    "lock_of (map_option (adopt env_contended)
        (blockDomain (Suc 0) env_contended this_plain ''example.com'' (Some empty_options)
           (delay env_contended 5000 world_locked))) = Some True"
    "lock_of (map_option (adopt env_contended)
        (unblockDomain (Suc 0) env_contended this_plain ''example.com'' None
           (delay env_contended 5000 world_locked))) = Some True"
    "lock_of (map_option (adopt env_contended)
        (incrementalUpdateIPMapping (Suc 0) env_contended this_plain ''example.com'' (Some empty_options)
           (delay env_contended 5000 world_locked))) = Some True"
    by (simp_all add: run_defs this_plain_def env_contended_def env_ok_def world_locked_def
        world_two_def)
  have calls: "calls_of (unblockDomain (Suc (Suc 0)) env_contended this_plain ''example.com'' None world_locked)
       = Some [Delay 5000, SMembers ''ipmapping:domain:example.com'',
          Unblock ''1.2.3.4'' ''blocked_domain_set'', Unblock ''5.6.7.8'' ''blocked_domain_set'',
          Del ''ipmapping:domain:example.com'',
          RemovePolicyFilterEntry ''example.com'', EmitReloadDNSRule]"
    by (simp add: run_defs this_plain_def env_contended_def env_ok_def world_locked_def
        world_two_def)
  note inst = lock_released_when_settled [where n = 0 and e = env_contended and this = this_plain
      and domain = "''example.com''" and options = None and r = "Inr ()" and w' = world_empty]
  from inst [where w = world_locked] held freed
  have deferred:
    "(\<exists>r1 w1. blockDomain (Suc (Suc 0)) env_contended this_plain ''example.com'' None world_locked
          = Some (r1, w1) \<and> \<not> globalLock w1)
     \<and> (\<exists>r2 w2. unblockDomain (Suc (Suc 0)) env_contended this_plain ''example.com'' None world_locked
          = Some (r2, w2) \<and> \<not> globalLock w2)
     \<and> (\<exists>r3 w3. incrementalUpdateIPMapping (Suc (Suc 0)) env_contended this_plain ''example.com'' None
          world_locked = Some (r3, w3) \<and> \<not> globalLock w3)"
    by blast
  from inst [where w = world_empty] free
  have direct: "\<exists>r3 w3. incrementalUpdateIPMapping (Suc 0) env_contended this_plain ''example.com'' None
          world_empty = Some (r3, w3) \<and> \<not> globalLock w3"
    by blast
  have l1: "lock_of (blockDomain (Suc (Suc 0)) env_contended this_plain ''example.com'' None world_locked)
       = Some False"
    using deferred by (auto simp add: lock_of_def simp del: blockDomain.simps)
  have l2: "lock_of (unblockDomain (Suc (Suc 0)) env_contended this_plain ''example.com'' None world_locked)
       = Some False"
    using deferred by (auto simp add: lock_of_def simp del: unblockDomain.simps)
  have l3: "lock_of (incrementalUpdateIPMapping (Suc (Suc 0)) env_contended this_plain ''example.com'' None
        world_locked) = Some False"
    using deferred by (auto simp add: lock_of_def simp del: incrementalUpdateIPMapping.simps)
  have l4: "lock_of (incrementalUpdateIPMapping (Suc 0) env_contended this_plain ''example.com'' None world_empty)
       = Some False"
    using direct by (auto simp add: lock_of_def simp del: incrementalUpdateIPMapping.simps)
  from held freed taken calls l1 l2 l3 l4 show ?thesis by (intro conjI)
qed

end
